theory Spec2Isabelle
  imports Main
begin

section \<open>Python values\<close>

text \<open>
  A Python \<open>str\<close> is a sequence of Unicode code points, so text is a list of code points
  (natural numbers); \<open>lit\<close> turns an ASCII literal into such a text. The values the store can
  hold are the ones \<open>json.load\<close> produces and \<open>add_books\<close> builds: \<open>None\<close>, booleans, integers,
  floats, strings, lists and dictionaries with string keys. A dictionary is an association
  list in insertion order. Floating point is not modelled: a float is carried as the numeral
  text it was read from.
\<close>

type_synonym str = "nat list"

definition lit :: "string \<Rightarrow> str" where
  "lit cs = map of_char cs"

datatype pyval =
    PNone
  | PBool bool
  | PInt int
  | PFloat str
  | PStr str
  | PList "pyval list"
  | PDict "(str \<times> pyval) list"

text \<open>
  The exceptions the methods meet. \<open>UnicodeEncodeError\<close> carries the text that could not be
  encoded; \<open>OtherError\<close> is any exception not named here, given by its \<open>str()\<close>.
\<close>

datatype exn =
    FileNotFoundError
  | IsADirectoryError
  | JSONDecodeError
  | RecursionError
  | ValueError
  | UnicodeDecodeError
  | UnicodeEncodeError str
  | KeyError str
  | TypeError
  | IndexError
  | AttributeError str
  | OtherError str

text \<open>The name of a value's type, as it appears in the message of an \<open>AttributeError\<close>.\<close>

fun type_name :: "pyval \<Rightarrow> str" where
  "type_name PNone = lit ''NoneType''"
| "type_name (PBool b) = lit ''bool''"
| "type_name (PInt i) = lit ''int''"
| "type_name (PFloat f) = lit ''float''"
| "type_name (PStr s) = lit ''str''"
| "type_name (PList xs) = lit ''list''"
| "type_name (PDict kvs) = lit ''dict''"

text \<open>\<open>v[k]\<close> for a string key \<open>k\<close>: only a dictionary can be subscripted by a string.\<close>

fun py_getitem :: "pyval \<Rightarrow> str \<Rightarrow> exn + pyval" where
  "py_getitem (PDict kvs) k = (case map_of kvs k of None \<Rightarrow> Inl (KeyError k) | Some v \<Rightarrow> Inr v)"
| "py_getitem v k = Inl TypeError"

text \<open>\<open>d[k] = v\<close> on a dictionary: an existing key keeps its position, a new key goes last.\<close>

fun dict_set :: "(str \<times> pyval) list \<Rightarrow> str \<Rightarrow> pyval \<Rightarrow> (str \<times> pyval) list" where
  "dict_set [] k v = [(k, v)]"
| "dict_set ((k', v') # kvs) k v = (if k' = k then (k, v) # kvs else (k', v') # dict_set kvs k v)"

fun py_setitem :: "pyval \<Rightarrow> str \<Rightarrow> pyval \<Rightarrow> exn + pyval" where
  "py_setitem (PDict kvs) k v = Inr (PDict (dict_set kvs k v))"
| "py_setitem b k v = Inl TypeError"

text \<open>The items a \<open>for\<close> loop visits: the elements of a list, the keys of a dictionary, the
  characters of a string; anything else is not iterable.\<close>

fun py_iter :: "pyval \<Rightarrow> exn + pyval list" where
  "py_iter (PList xs) = Inr xs"
| "py_iter (PDict kvs) = Inr (map (\<lambda>kv. PStr (fst kv)) kvs)"
| "py_iter (PStr s) = Inr (map (\<lambda>c. PStr [c]) s)"
| "py_iter v = Inl TypeError"

text \<open>\<open>store.append(v)\<close>: only a list has the method.\<close>

fun py_append :: "pyval \<Rightarrow> pyval \<Rightarrow> exn + pyval" where
  "py_append (PList xs) v = Inr (PList (xs @ [v]))"
| "py_append s v = Inl (AttributeError (type_name s))"

text \<open>The store after a loop over its items changed them: only the elements of a list are
  mutable objects; the keys of a dictionary and the characters of a string are not.\<close>

fun with_items :: "pyval \<Rightarrow> pyval list \<Rightarrow> pyval" where
  "with_items (PList xs) ys = PList ys"
| "with_items s ys = s"

subsection \<open>String methods\<close>

text \<open>\<open>str.isspace\<close> for one code point, and \<open>str.strip()\<close> with no argument.\<close>

definition isspace :: "nat \<Rightarrow> bool" where
  "isspace c \<longleftrightarrow>
     (9 \<le> c \<and> c \<le> 13) \<or> (28 \<le> c \<and> c \<le> 32) \<or> c = 133 \<or> c = 160 \<or> c = 5760
     \<or> (8192 \<le> c \<and> c \<le> 8202) \<or> c = 8232 \<or> c = 8233 \<or> c = 8239 \<or> c = 8287 \<or> c = 12288"

definition strip :: "str \<Rightarrow> str" where
  "strip s = rev (dropWhile isspace (rev (dropWhile isspace s)))"

definition endswith :: "str \<Rightarrow> str \<Rightarrow> bool" where
  "endswith s suffix \<longleftrightarrow> length suffix \<le> length s \<and> drop (length s - length suffix) s = suffix"

text \<open>\<open>sep.join(parts)\<close>.\<close>

fun join :: "str \<Rightarrow> str list \<Rightarrow> str" where
  "join sep [] = []"
| "join sep [x] = x"
| "join sep (x # y # ys) = x @ sep @ join sep (y # ys)"

text \<open>The decimal numeral of a natural number, as \<open>str(n)\<close> and an f-string print it.\<close>

fun digits :: "nat \<Rightarrow> nat \<Rightarrow> str" where
  "digits 0 n = []"
| "digits (Suc fuel) n = (if n < 10 then [48 + n] else digits fuel (n div 10) @ [48 + n mod 10])"

definition str_of_nat :: "nat \<Rightarrow> str" where
  "str_of_nat n = digits (Suc n) n"

definition str_of_int :: "int \<Rightarrow> str" where
  "str_of_int i = (if i < 0 then 45 # str_of_nat (nat (- i)) else str_of_nat (nat i))"

subsection \<open>Paths\<close>

text \<open>\<open>os.path.basename\<close> and \<open>os.path.join\<close> of two components, as \<open>posixpath\<close> defines them:
  the base name is what follows the last slash; a second component that starts with a slash
  replaces the first, and a slash is inserted unless the first is empty or ends with one.\<close>

definition basename :: "str \<Rightarrow> str" where
  "basename p = rev (takeWhile (\<lambda>c. c \<noteq> 47) (rev p))"

definition path_join :: "str \<Rightarrow> str \<Rightarrow> str" where
  "path_join a b =
     (if b \<noteq> [] \<and> hd b = 47 then b
      else if a = [] \<or> last a = 47 then a @ b
      else a @ [47] @ b)"

section \<open>The library object and its world\<close>

text \<open>
  \<open>Book\<close> is the class of the source: \<open>books_store\<close>, \<open>filename\<close> and \<open>books_directory\<close> are its
  attributes. The two further fields are the world the methods act on: \<open>files\<close> maps a path to
  the content of the file there, and \<open>stdout\<close> lists what \<open>print\<close> was called with, oldest
  first (the terminal is taken to accept every string). A file holds text (it was written in
  text mode, or its bytes are given by the text they decode to) or bytes (a download, or any
  file of the disk).
\<close>

datatype content = Text str | Binary str

record Book =
  books_store :: pyval
  filename :: str
  books_directory :: str
  files :: "str \<rightharpoonup> content"
  stdout :: "str list"

definition print :: "str \<Rightarrow> Book \<Rightarrow> Book" where
  "print s self = self\<lparr>stdout := stdout self @ [s]\<rparr>"

text \<open>The state in which the file at \<open>path\<close> holds \<open>data\<close>.\<close>

definition write_file :: "str \<Rightarrow> content \<Rightarrow> Book \<Rightarrow> Book" where
  "write_file path data self = self\<lparr>files := (files self)(path \<mapsto> data)\<rparr>"

text \<open>
  What the methods call and cannot see into is a parameter: the URL validator, the HTTP
  client, the PDF reader (a document is the list of its pages, each with its text layer and
  its pixmap), the OCR engine, the DOCX reader (a document is the list of its paragraphs'
  texts), \<open>str()\<close> of a value that is neither a string nor \<open>None\<close>; the operating system's
  answer when a path is opened for writing; the locale's encoding (the characters beyond
  ASCII it can write, the text it reads from bytes, the message of its encoder's exception);
  and the two limits of the interpreter that the JSON decoder meets (how many containers may
  be nested, and how many digits an integer may have, 0 for any number). A call returns its
  result or raises: the built-in \<open>FileNotFoundError\<close>, or another exception \<open>e\<close>, given by
  \<open>str(e)\<close>.
\<close>

datatype failure = NotFound | Failed str

fun raised :: "failure \<Rightarrow> exn" where
  "raised NotFound = FileNotFoundError"
| "raised (Failed msg) = OtherError msg"

record response =
  status_code :: int
  content :: str

record pixmap =
  width :: nat
  height :: nat
  samples :: str

record page =
  get_text :: str
  get_pixmap :: pixmap

datatype image = Image str "nat \<times> nat" str

record env =
  validators_url :: "str \<Rightarrow> bool"
  requests_get :: "str \<Rightarrow> failure + response"
  fitz_open :: "str \<Rightarrow> failure + page list"
  image_to_string :: "image \<Rightarrow> failure + str"
  docx_Document :: "str \<Rightarrow> failure + str list"
  py_str :: "pyval \<Rightarrow> str"
  open_w :: "str \<Rightarrow> failure option"
  locale_encodes :: "nat \<Rightarrow> bool"
  locale_decode :: "str \<Rightarrow> str option"
  encode_error_message :: "str \<Rightarrow> str"
  max_depth :: nat
  max_str_digits :: nat

definition Image_frombytes :: "str \<Rightarrow> nat \<times> nat \<Rightarrow> str \<Rightarrow> image" where
  "Image_frombytes mode dims data = Image mode dims data"

subsection \<open>Files\<close>

text \<open>
  \<open>open(path, 'w')\<close> and \<open>open(path, 'wb')\<close>: the exception raised, if any. A path that ends
  with a slash names a directory; for any other path the operating system answers (a missing
  directory gives \<open>FileNotFoundError\<close>). Opening creates the file or empties it.
\<close>

definition open_write :: "env \<Rightarrow> str \<Rightarrow> exn option" where
  "open_write E path =
     (if path \<noteq> [] \<and> last path = 47 then Some IsADirectoryError
      else map_option raised (open_w E path))"

text \<open>
  The text a file opened with \<open>open(path, 'r')\<close> gives when it is read: bytes that the
  locale's encoding cannot decode raise \<open>UnicodeDecodeError\<close>.
\<close>

definition read_text :: "env \<Rightarrow> content \<Rightarrow> exn + str" where
  "read_text E c =
     (case c of
        Text t \<Rightarrow> Inr t
      | Binary b \<Rightarrow> (case locale_decode E b of None \<Rightarrow> Inl UnicodeDecodeError | Some t \<Rightarrow> Inr t))"

text \<open>
  The text a file can take: with the locale's encoding, ASCII and the characters the locale
  adds; with \<open>encoding='utf-8'\<close>, every character but the surrogates.
\<close>

definition locale_encodable :: "env \<Rightarrow> str \<Rightarrow> bool" where
  "locale_encodable E t = list_all (\<lambda>c. c < 128 \<or> locale_encodes E c) t"

definition utf8_encodable :: "str \<Rightarrow> bool" where
  "utf8_encodable t = list_all (\<lambda>c. \<not> (55296 \<le> c \<and> c \<le> 57343)) t"

text \<open>The four keys of a book record, and text in single quotes.\<close>

definition k_title :: str where "k_title = lit ''title''"
definition k_author :: str where "k_author = lit ''author''"
definition k_year :: str where "k_year = lit ''year''"
definition k_file_path :: str where "k_file_path = lit ''file_path''"

definition quoted :: "str \<Rightarrow> str" where
  "quoted s = [39] @ s @ [39]"

section \<open>add_books\<close>

text \<open>
  The four values read by \<open>input\<close> are the arguments. A method returns the exception that
  left it, if any, and the state it left behind.
\<close>

definition add_books :: "env \<Rightarrow> str \<Rightarrow> str \<Rightarrow> str \<Rightarrow> str \<Rightarrow> Book \<Rightarrow> exn option \<times> Book" where
  "add_books E title author publication_date book_url self =
     (if \<not> validators_url E book_url then
        (None, print (lit ''Invalid URL. Please enter a valid URL.'') self)
      else
        (case requests_get E book_url of
           Inl e \<Rightarrow> (Some (raised e), self)
         | Inr response \<Rightarrow>
             if status_code response = 200 then
               (let file_name = path_join (books_directory self) (basename book_url)
                in (case open_write E file_name of
                      Some e \<Rightarrow> (Some e, self)
                    | None \<Rightarrow>
                        (let self1 = write_file file_name (Binary (content response)) self;
                             self2 = print (lit ''Book downloaded and saved as '' @ quoted file_name) self1;
                             new_book = PDict [(k_title, PStr title), (k_author, PStr author),
                                               (k_year, PStr publication_date),
                                               (k_file_path, PStr file_name)]
                         in (case py_append (books_store self2) new_book of
                               Inl e \<Rightarrow> (Some e, self2)
                             | Inr store \<Rightarrow>
                                 (None, print (lit ''You have successfully added '' @ quoted title
                                                 @ lit '' to your Library'')
                                          (self2\<lparr>books_store := store\<rparr>))))))
             else (None, print (lit ''Failed to download the book.'') self)))"

section \<open>read_book\<close>

text \<open>
  The page loop of the PDF branch. Besides the text gathered so far it returns the images
  that were handed to the OCR engine, in order: the trace of the rasterisations.
\<close>

fun extract_pages :: "env \<Rightarrow> page list \<Rightarrow> str \<Rightarrow> image list \<Rightarrow> failure + (str \<times> image list)" where
  "extract_pages E [] extracted_text ocr = Inr (extracted_text, ocr)"
| "extract_pages E (page # pages) extracted_text ocr =
     (let text = get_text page in
      if strip text = [] then
        (let pix = get_pixmap page;
             img = Image_frombytes (lit ''RGB'') (width pix, height pix) (samples pix)
         in (case image_to_string E img of
               Inl e \<Rightarrow> Inl e
             | Inr text' \<Rightarrow> extract_pages E pages (extracted_text @ text') (ocr @ [img])))
      else extract_pages E pages (extracted_text @ text) ocr)"

text \<open>
  \<open>with open(f"{title}.txt", 'w', encoding='utf-8') as txt_file: txt_file.write(text)\<close>. When
  the text cannot be encoded the file has been opened, and is left empty.
\<close>

definition write_txt :: "env \<Rightarrow> str \<Rightarrow> str \<Rightarrow> Book \<Rightarrow> exn option \<times> Book" where
  "write_txt E path extracted_text self =
     (case open_write E path of
        Some e \<Rightarrow> (Some e, self)
      | None \<Rightarrow>
          if utf8_encodable extracted_text then (None, write_file path (Text extracted_text) self)
          else (Some (UnicodeEncodeError extracted_text), write_file path (Text []) self))"

text \<open>The body of the \<open>try\<close>: the exception raised in it, if any, and the state then.\<close>

definition read_body :: "env \<Rightarrow> str \<Rightarrow> pyval \<Rightarrow> Book \<Rightarrow> exn option \<times> Book" where
  "read_body E title file_path self =
     (case file_path of
        PStr path \<Rightarrow>
          if endswith path (lit ''.pdf'') then
            (case fitz_open E path of
               Inl e \<Rightarrow> (Some (raised e), self)
             | Inr pdf_file \<Rightarrow>
                 (let num_pages = length pdf_file;
                      self1 = print (lit ''Reading '' @ title @ lit '': '' @ str_of_nat num_pages
                                       @ lit '' pages available.'' @ [10]) self
                  in (case extract_pages E pdf_file [] [] of
                        Inl e \<Rightarrow> (Some (raised e), self1)
                      | Inr (extracted_text, ocr) \<Rightarrow>
                          write_txt E (title @ lit ''.txt'') extracted_text
                            (print extracted_text self1))))
          else if endswith path (lit ''.docx'') then
            (case docx_Document E path of
               Inl e \<Rightarrow> (Some (raised e), self)
             | Inr paragraphs \<Rightarrow>
                 (let extracted_text = join [10] paragraphs
                  in write_txt E (title @ lit ''.txt'') extracted_text (print extracted_text self)))
          else (None, print (lit ''Unsupported file format for '' @ quoted title @ lit ''.'') self)
      | _ \<Rightarrow> (Some (AttributeError (type_name file_path)), self))"

text \<open>\<open>str(e)\<close> for the exceptions that reach \<open>except Exception\<close>: the \<open>AttributeError\<close> of
  \<open>file_path.endswith\<close> on a value that is no string, the encoder's exception, and what a
  library or the operating system raised. No other exception is raised in the body (the
  path of the text file ends with \<open>.txt\<close>, not with a slash).\<close>

fun exn_str :: "env \<Rightarrow> exn \<Rightarrow> str" where
  "exn_str E (AttributeError t) =
     quoted t @ lit '' object has no attribute '' @ quoted (lit ''endswith'')"
| "exn_str E (UnicodeEncodeError t) = encode_error_message E t"
| "exn_str E (OtherError msg) = msg"
| "exn_str E e = []"

text \<open>The \<open>try\<close> with its two handlers.\<close>

definition read_try :: "env \<Rightarrow> str \<Rightarrow> pyval \<Rightarrow> Book \<Rightarrow> Book" where
  "read_try E title file_path self =
     (case read_body E title file_path self of
        (None, self') \<Rightarrow> self'
      | (Some FileNotFoundError, self') \<Rightarrow>
          print (lit ''Book file '' @ quoted (case file_path of PStr p \<Rightarrow> p | _ \<Rightarrow> [])
                   @ lit '' not found.'') self'
      | (Some e, self') \<Rightarrow> print (lit ''An error occurred: '' @ exn_str E e) self')"

fun read_loop :: "env \<Rightarrow> str \<Rightarrow> pyval list \<Rightarrow> Book \<Rightarrow> exn option \<times> Book" where
  "read_loop E title [] self =
     (None, print (lit ''Book titled '' @ quoted title @ lit '' not found in the store.'') self)"
| "read_loop E title (book # books) self =
     (case py_getitem book k_title of
        Inl e \<Rightarrow> (Some e, self)
      | Inr t \<Rightarrow>
          if t = PStr title then
            (case py_getitem book k_file_path of
               Inl e \<Rightarrow> (Some e, self)
             | Inr file_path \<Rightarrow> (None, read_try E title file_path self))
          else read_loop E title books self)"

definition read_book :: "env \<Rightarrow> str \<Rightarrow> Book \<Rightarrow> exn option \<times> Book" where
  "read_book E title self =
     (case py_iter (books_store self) of
        Inl e \<Rightarrow> (Some e, self)
      | Inr books \<Rightarrow> read_loop E title books self)"

section \<open>edit_book\<close>

text \<open>\<open>input(...).strip() or current\<close>: the stripped input unless it is empty.\<close>

definition or_current :: "str \<Rightarrow> pyval \<Rightarrow> pyval" where
  "or_current answer current = (if strip answer = [] then current else PStr (strip answer))"

text \<open>\<open>if new != book[k]: book[k] = new\<close>.\<close>

definition assign_if_changed :: "pyval \<Rightarrow> str \<Rightarrow> pyval \<Rightarrow> exn + pyval" where
  "assign_if_changed book k new =
     (case py_getitem book k of
        Inl e \<Rightarrow> Inl e
      | Inr current \<Rightarrow> if new \<noteq> current then py_setitem book k new else Inr book)"

text \<open>
  The body of the loop for the matching record. The four prompts read the record's current
  values, in the order title, author, year, file path, before anything is assigned.
\<close>

definition edit_record :: "str \<Rightarrow> str \<Rightarrow> str \<Rightarrow> str \<Rightarrow> pyval \<Rightarrow> exn + pyval" where
  "edit_record in_title in_author in_date in_path book =
     (case py_getitem book k_title of Inl e \<Rightarrow> Inl e | Inr cur_title \<Rightarrow>
      case py_getitem book k_author of Inl e \<Rightarrow> Inl e | Inr cur_author \<Rightarrow>
      case py_getitem book k_year of Inl e \<Rightarrow> Inl e | Inr cur_year \<Rightarrow>
      case py_getitem book k_file_path of Inl e \<Rightarrow> Inl e | Inr cur_path \<Rightarrow>
        (let new_title = or_current in_title cur_title;
             new_author = or_current in_author cur_author;
             new_publication_date = or_current in_date cur_year;
             new_file_path = or_current in_path cur_path
         in case assign_if_changed book k_title new_title of Inl e \<Rightarrow> Inl e | Inr book1 \<Rightarrow>
            case assign_if_changed book1 k_author new_author of Inl e \<Rightarrow> Inl e | Inr book2 \<Rightarrow>
            case assign_if_changed book2 k_year new_publication_date of Inl e \<Rightarrow> Inl e | Inr book3 \<Rightarrow>
              assign_if_changed book3 k_file_path new_file_path))"

text \<open>The loop: \<open>None\<close> when no title matched, else the items with the first match edited.\<close>

fun edit_loop :: "str \<Rightarrow> str \<Rightarrow> str \<Rightarrow> str \<Rightarrow> str \<Rightarrow> pyval list \<Rightarrow> exn + pyval list option" where
  "edit_loop edit in_title in_author in_date in_path [] = Inr None"
| "edit_loop edit in_title in_author in_date in_path (book # books) =
     (case py_getitem book k_title of
        Inl e \<Rightarrow> Inl e
      | Inr t \<Rightarrow>
          if PStr edit = t then
            (case edit_record in_title in_author in_date in_path book of
               Inl e \<Rightarrow> Inl e
             | Inr book' \<Rightarrow> Inr (Some (book' # books)))
          else
            (case edit_loop edit in_title in_author in_date in_path books of
               Inl e \<Rightarrow> Inl e
             | Inr None \<Rightarrow> Inr None
             | Inr (Some books') \<Rightarrow> Inr (Some (book # books'))))"

definition edit_book :: "str \<Rightarrow> str \<Rightarrow> str \<Rightarrow> str \<Rightarrow> str \<Rightarrow> Book \<Rightarrow> exn option \<times> Book" where
  "edit_book edit in_title in_author in_date in_path self =
     (case py_iter (books_store self) of
        Inl e \<Rightarrow> (Some e, self)
      | Inr books \<Rightarrow>
          (case edit_loop edit in_title in_author in_date in_path books of
             Inl e \<Rightarrow> (Some e, self)
           | Inr None \<Rightarrow> (None, print (lit ''Book title not found.'') self)
           | Inr (Some books') \<Rightarrow>
               (None, print (lit ''Book details updated successfully!'')
                        (self\<lparr>books_store := with_items (books_store self) books'\<rparr>))))"

section \<open>remove_book\<close>

text \<open>The loop over \<open>enumerate(self.books_store)\<close>: the index of the first match, if any.\<close>

fun remove_loop :: "str \<Rightarrow> nat \<Rightarrow> pyval list \<Rightarrow> exn + nat option" where
  "remove_loop remove i [] = Inr None"
| "remove_loop remove i (book # books) =
     (case py_getitem book k_title of
        Inl e \<Rightarrow> Inl e
      | Inr t \<Rightarrow> if PStr remove = t then Inr (Some i) else remove_loop remove (Suc i) books)"

text \<open>\<open>del store[i]\<close> for an index \<open>i\<close>.\<close>

fun py_delitem :: "pyval \<Rightarrow> nat \<Rightarrow> exn + pyval" where
  "py_delitem (PList xs) i = (if i < length xs then Inr (PList (take i xs @ drop (Suc i) xs)) else Inl IndexError)"
| "py_delitem s i = Inl TypeError"

definition remove_book :: "str \<Rightarrow> Book \<Rightarrow> exn option \<times> Book" where
  "remove_book remove self =
     (case py_iter (books_store self) of
        Inl e \<Rightarrow> (Some e, self)
      | Inr books \<Rightarrow>
          (case remove_loop remove 0 books of
             Inl e \<Rightarrow> (Some e, self)
           | Inr None \<Rightarrow>
               (None, print (lit ''Book with title '' @ quoted remove @ lit '' not found.'') self)
           | Inr (Some i) \<Rightarrow>
               (case py_delitem (books_store self) i of
                  Inl e \<Rightarrow> (Some e, self)
                | Inr store \<Rightarrow>
                    (None, print (lit ''Book '' @ quoted remove @ lit '' deleted successfully!'')
                             (self\<lparr>books_store := store\<rparr>)))))"

section \<open>JSON\<close>

text \<open>
  \<open>json.dump\<close> and \<open>json.load\<close> belong to Python's standard library; they are modelled after
  its encoder and decoder. The encoder is the one \<open>json.dump(obj, fp, indent=4)\<close> runs: ASCII
  output, \<open>,\<close> between items and \<open>: \<close> after a key, every item of a non-empty container on a
  line of its own, indented by four spaces per level.
\<close>

subsection \<open>Encoding\<close>

definition hexdigit :: "nat \<Rightarrow> nat" where
  "hexdigit d = (if d < 10 then 48 + d else 87 + d)"

text \<open>\<open>'\\u{0:04x}'.format(n)\<close>.\<close>

definition escape_u :: "nat \<Rightarrow> str" where
  "escape_u n = [92, 117, hexdigit (n div 4096 mod 16), hexdigit (n div 256 mod 16),
                 hexdigit (n div 16 mod 16), hexdigit (n mod 16)]"

text \<open>
  One character of a string: the two-character escapes, the printable ASCII characters as
  they are, any other character of the basic plane as \<open>\uXXXX\<close>, and a character beyond it as
  a surrogate pair (\<open>0xd800 | ((n >> 10) & 0x3ff)\<close> and \<open>0xdc00 | (n & 0x3ff)\<close> for
  \<open>n = c - 0x10000\<close>).
\<close>

definition encode_char :: "nat \<Rightarrow> str" where
  "encode_char c =
     (if c = 34 then [92, 34]
      else if c = 92 then [92, 92]
      else if c = 10 then [92, 110]
      else if c = 13 then [92, 114]
      else if c = 9 then [92, 116]
      else if c = 8 then [92, 98]
      else if c = 12 then [92, 102]
      else if 32 \<le> c \<and> c \<le> 126 then [c]
      else if c < 65536 then escape_u c
      else escape_u (55296 + (c - 65536) div 1024 mod 1024) @ escape_u (56320 + (c - 65536) mod 1024))"

definition encode_basestring_ascii :: "str \<Rightarrow> str" where
  "encode_basestring_ascii s = [34] @ concat (map encode_char s) @ [34]"

definition newline_indent :: "nat \<Rightarrow> str" where
  "newline_indent level = 10 # replicate (4 * level) 32"

fun iterencode :: "nat \<Rightarrow> pyval \<Rightarrow> str" where
  "iterencode level PNone = lit ''null''"
| "iterencode level (PBool b) = (if b then lit ''true'' else lit ''false'')"
| "iterencode level (PInt i) = str_of_int i"
| "iterencode level (PFloat f) = f"
| "iterencode level (PStr s) = encode_basestring_ascii s"
| "iterencode level (PList []) = lit ''[]''"
| "iterencode level (PList (x # xs)) =
     [91] @ newline_indent (Suc level)
     @ join (44 # newline_indent (Suc level)) (map (iterencode (Suc level)) (x # xs))
     @ newline_indent level @ [93]"
| "iterencode level (PDict []) = lit ''{}''"
| "iterencode level (PDict (kv # kvs)) =
     [123] @ newline_indent (Suc level)
     @ join (44 # newline_indent (Suc level))
         (map (\<lambda>item. encode_basestring_ascii (fst item) @ lit '': '' @ iterencode (Suc level) (snd item))
            (kv # kvs))
     @ newline_indent level @ [125]"

definition json_dumps :: "pyval \<Rightarrow> str" where
  "json_dumps obj = iterencode 0 obj"

subsection \<open>Decoding\<close>

definition json_ws :: "nat \<Rightarrow> bool" where
  "json_ws c \<longleftrightarrow> c = 32 \<or> c = 9 \<or> c = 10 \<or> c = 13"

definition skip_ws :: "str \<Rightarrow> str" where
  "skip_ws s = dropWhile json_ws s"

definition hexval :: "nat \<Rightarrow> nat option" where
  "hexval c =
     (if 48 \<le> c \<and> c \<le> 57 then Some (c - 48)
      else if 97 \<le> c \<and> c \<le> 102 then Some (c - 87)
      else if 65 \<le> c \<and> c \<le> 70 then Some (c - 55)
      else None)"

text \<open>The four hexadecimal digits of a \<open>\uXXXX\<close> escape.\<close>

definition decode_uXXXX :: "nat \<Rightarrow> nat \<Rightarrow> nat \<Rightarrow> nat \<Rightarrow> nat option" where
  "decode_uXXXX a b c d =
     (case hexval a of None \<Rightarrow> None | Some w \<Rightarrow>
      case hexval b of None \<Rightarrow> None | Some x \<Rightarrow>
      case hexval c of None \<Rightarrow> None | Some y \<Rightarrow>
      case hexval d of None \<Rightarrow> None | Some z \<Rightarrow> Some (((w * 16 + x) * 16 + y) * 16 + z))"

text \<open>The character a backslash escape other than \<open>\u\<close> stands for.\<close>

definition backslash :: "nat \<Rightarrow> nat option" where
  "backslash e =
     (if e = 34 then Some 34
      else if e = 92 then Some 92
      else if e = 47 then Some 47
      else if e = 98 then Some 8
      else if e = 102 then Some 12
      else if e = 110 then Some 10
      else if e = 114 then Some 13
      else if e = 116 then Some 9
      else None)"

definition cons_char :: "nat \<Rightarrow> (str \<times> str) option \<Rightarrow> (str \<times> str) option" where
  "cons_char c r = (case r of None \<Rightarrow> None | Some (chars, rest) \<Rightarrow> Some (c # chars, rest))"

text \<open>
  A string, from the character after its opening quote: the decoded characters and the text
  after the closing quote. A control character is refused (the decoder is strict); a \<open>\uXXXX\<close>
  escape of a high surrogate directly followed by one of a low surrogate is one character.
\<close>

fun scanstring :: "str \<Rightarrow> (str \<times> str) option" where
  "scanstring [] = None"
| "scanstring (c # cs) =
     (if c = 34 then Some ([], cs)
      else if c = 92 then
        (case cs of
           [] \<Rightarrow> None
         | e # cs1 \<Rightarrow>
             if e = 117 then
               (case cs1 of
                  h1 # h2 # h3 # h4 # cs2 \<Rightarrow>
                    (case decode_uXXXX h1 h2 h3 h4 of
                       None \<Rightarrow> None
                     | Some uni \<Rightarrow>
                         (case cs2 of
                            b # u # l1 # l2 # l3 # l4 # cs3 \<Rightarrow>
                              (case decode_uXXXX l1 l2 l3 l4 of
                                 None \<Rightarrow> cons_char uni (scanstring cs2)
                               | Some uni2 \<Rightarrow>
                                   if 55296 \<le> uni \<and> uni \<le> 56319 \<and> b = 92 \<and> u = 117
                                      \<and> 56320 \<le> uni2 \<and> uni2 \<le> 57343
                                   then cons_char (65536 + ((uni - 55296) * 1024 + (uni2 - 56320)))
                                          (scanstring cs3)
                                   else cons_char uni (scanstring cs2))
                          | _ \<Rightarrow> cons_char uni (scanstring cs2)))
                | _ \<Rightarrow> None)
             else
               (case backslash e of
                  None \<Rightarrow> None
                | Some ch \<Rightarrow> cons_char ch (scanstring cs1)))
      else if c < 32 then None
      else cons_char c (scanstring cs))"

definition is_digit :: "nat \<Rightarrow> bool" where
  "is_digit c \<longleftrightarrow> 48 \<le> c \<and> c \<le> 57"

definition nat_of_digits :: "str \<Rightarrow> nat" where
  "nat_of_digits ds = foldl (\<lambda>a d. 10 * a + (d - 48)) 0 ds"

text \<open>
  A number: an optional minus sign, \<open>0\<close> or a digit from 1 to 9 followed by digits, an optional
  fraction and an optional exponent. Without fraction and exponent it is an integer, and
  \<open>int\<close> refuses it with \<open>ValueError\<close> when it has more digits than the interpreter's limit.
\<close>

definition match_number :: "nat \<Rightarrow> str \<Rightarrow> exn + (pyval \<times> str)" where
  "match_number digits_limit s =
     (let neg = (s \<noteq> [] \<and> hd s = 45);
          s1 = (if neg then tl s else s)
      in case s1 of
           [] \<Rightarrow> Inl JSONDecodeError
         | d # r \<Rightarrow>
             if \<not> is_digit d then Inl JSONDecodeError
             else
               (let integer = (if d = 48 then [d] else d # takeWhile is_digit r);
                    s2 = (if d = 48 then r else dropWhile is_digit r);
                    has_frac = (case s2 of p # d1 # r2 \<Rightarrow> p = 46 \<and> is_digit d1 | _ \<Rightarrow> False);
                    frac = (if has_frac then 46 # takeWhile is_digit (tl s2) else []);
                    s3 = (if has_frac then dropWhile is_digit (tl s2) else s2);
                    has_e = (s3 \<noteq> [] \<and> (hd s3 = 101 \<or> hd s3 = 69));
                    s4 = (if has_e then tl s3 else s3);
                    has_sign = (has_e \<and> s4 \<noteq> [] \<and> (hd s4 = 43 \<or> hd s4 = 45));
                    s5 = (if has_sign then tl s4 else s4);
                    has_exp = (has_e \<and> s5 \<noteq> [] \<and> is_digit (hd s5));
                    exp = (if has_exp then take (length s3 - length s5) s3 @ takeWhile is_digit s5 else []);
                    s6 = (if has_exp then dropWhile is_digit s5 else s3);
                    sign = (if neg then [45] else [])
                in if \<not> has_frac \<and> \<not> has_exp
                   then (if 0 < digits_limit \<and> digits_limit < length integer then Inl ValueError
                         else Inr (PInt (if neg then - int (nat_of_digits integer)
                                         else int (nat_of_digits integer)), s6))
                   else Inr (PFloat (sign @ integer @ frac @ exp), s6)))"

text \<open>
  A value, the items of an array after its first, and the members of an object. The second
  argument is the number of containers that may still be entered: entering one more raises
  \<open>RecursionError\<close>. The third is the limit on the digits of an integer. The first argument
  bounds the number of calls, so that the functions are total; \<open>json_loads\<close> starts with more
  than any text of its length needs.
\<close>

fun scan_once :: "nat \<Rightarrow> nat \<Rightarrow> nat \<Rightarrow> str \<Rightarrow> exn + (pyval \<times> str)"
  and parse_array :: "nat \<Rightarrow> nat \<Rightarrow> nat \<Rightarrow> str \<Rightarrow> pyval list \<Rightarrow> exn + (pyval \<times> str)"
  and parse_object :: "nat \<Rightarrow> nat \<Rightarrow> nat \<Rightarrow> str \<Rightarrow> (str \<times> pyval) list \<Rightarrow> exn + (pyval \<times> str)" where
  "scan_once 0 depth lim s = Inl JSONDecodeError"
| "scan_once (Suc n) depth lim [] = Inl JSONDecodeError"
| "scan_once (Suc n) depth lim (c # cs) =
     (if c = 34 then
        (case scanstring cs of
           None \<Rightarrow> Inl JSONDecodeError
         | Some (chars, rest) \<Rightarrow> Inr (PStr chars, rest))
      else if c = 123 then
        (if depth = 0 then Inl RecursionError
         else
           (let s = skip_ws cs in
            if s \<noteq> [] \<and> hd s = 125 then Inr (PDict [], tl s)
            else parse_object n (depth - 1) lim s []))
      else if c = 91 then
        (if depth = 0 then Inl RecursionError
         else
           (let s = skip_ws cs in
            if s \<noteq> [] \<and> hd s = 93 then Inr (PList [], tl s)
            else parse_array n (depth - 1) lim s []))
      else if c = 110 \<and> take 3 cs = lit ''ull'' then Inr (PNone, drop 3 cs)
      else if c = 116 \<and> take 3 cs = lit ''rue'' then Inr (PBool True, drop 3 cs)
      else if c = 102 \<and> take 4 cs = lit ''alse'' then Inr (PBool False, drop 4 cs)
      else if c = 78 \<and> take 2 cs = lit ''aN'' then Inr (PFloat (lit ''NaN''), drop 2 cs)
      else if c = 73 \<and> take 7 cs = lit ''nfinity'' then Inr (PFloat (lit ''Infinity''), drop 7 cs)
      else if c = 45 \<and> take 8 cs = lit ''Infinity'' then Inr (PFloat (lit ''-Infinity''), drop 8 cs)
      else match_number lim (c # cs))"
| "parse_array 0 depth lim s acc = Inl JSONDecodeError"
| "parse_array (Suc n) depth lim s acc =
     (case scan_once n depth lim s of
        Inl e \<Rightarrow> Inl e
      | Inr (v, rest) \<Rightarrow>
          (case skip_ws rest of
             [] \<Rightarrow> Inl JSONDecodeError
           | c # r \<Rightarrow>
               if c = 93 then Inr (PList (acc @ [v]), r)
               else if c = 44 then parse_array n depth lim (skip_ws r) (acc @ [v])
               else Inl JSONDecodeError))"
| "parse_object 0 depth lim s acc = Inl JSONDecodeError"
| "parse_object (Suc n) depth lim s acc =
     (case s of
        [] \<Rightarrow> Inl JSONDecodeError
      | q # s1 \<Rightarrow>
          if q \<noteq> 34 then Inl JSONDecodeError
          else
            (case scanstring s1 of
               None \<Rightarrow> Inl JSONDecodeError
             | Some (key, s2) \<Rightarrow>
                 (case skip_ws s2 of
                    [] \<Rightarrow> Inl JSONDecodeError
                  | colon # s3 \<Rightarrow>
                      if colon \<noteq> 58 then Inl JSONDecodeError
                      else
                        (case scan_once n depth lim (skip_ws s3) of
                           Inl e \<Rightarrow> Inl e
                         | Inr (v, s4) \<Rightarrow>
                             (case skip_ws s4 of
                                [] \<Rightarrow> Inl JSONDecodeError
                              | c # s5 \<Rightarrow>
                                  if c = 125 then Inr (PDict (dict_set acc key v), s5)
                                  else if c = 44
                                  then parse_object n depth lim (skip_ws s5) (dict_set acc key v)
                                  else Inl JSONDecodeError)))))"

text \<open>\<open>json.loads\<close>: one value, with white space before and after it and nothing else.\<close>

definition json_loads :: "env \<Rightarrow> str \<Rightarrow> exn + pyval" where
  "json_loads E s =
     (case scan_once (2 * length s + 1) (max_depth E) (max_str_digits E) (skip_ws s) of
        Inl e \<Rightarrow> Inl e
      | Inr (obj, rest) \<Rightarrow> if skip_ws rest = [] then Inr obj else Inl JSONDecodeError)"

section \<open>load_books and save_books\<close>

text \<open>
  \<open>load_books\<close>: the inner \<open>try\<close> around \<open>json.load\<close> catches \<open>JSONDecodeError\<close>, the outer one
  around the \<open>with open\<close> catches \<open>FileNotFoundError\<close>; both handlers print the same line and
  empty the store. Any other exception of the body leaves the method. A path in \<open>files\<close> is
  a regular file that can be read.
\<close>

definition starting_empty :: "Book \<Rightarrow> Book" where
  "starting_empty self =
     (print (lit ''Starting with an empty book store.'' @ [10]) self)\<lparr>books_store := PList []\<rparr>"

definition json_load :: "env \<Rightarrow> content \<Rightarrow> exn + pyval" where
  "json_load E b = (case read_text E b of Inl e \<Rightarrow> Inl e | Inr s \<Rightarrow> json_loads E s)"

definition load_books :: "env \<Rightarrow> Book \<Rightarrow> exn option \<times> Book" where
  "load_books E self =
     (case files self (filename self) of
        None \<Rightarrow> (None, starting_empty self)
      | Some b \<Rightarrow>
          (case json_load E b of
             Inr obj \<Rightarrow> (None, print (lit ''Books loaded successfully!'') (self\<lparr>books_store := obj\<rparr>))
           | Inl e \<Rightarrow>
               if e = JSONDecodeError then (None, starting_empty self)
               else if e = FileNotFoundError then (None, starting_empty self)
               else (Some e, self)))"

text \<open>
  \<open>save_books\<close>: the text \<open>json.dump\<close> writes is ASCII, which every locale's encoding takes.
  (The encoder's own limit on nesting is not modelled.)
\<close>

definition save_books :: "env \<Rightarrow> Book \<Rightarrow> exn option \<times> Book" where
  "save_books E self =
     (case open_write E (filename self) of
        Some e \<Rightarrow> (Some e, self)
      | None \<Rightarrow>
          (None, print (lit ''Books saved successfully!'')
                   (write_file (filename self) (Text (json_dumps (books_store self))) self)))"

text \<open>\<open>__init__\<close>, on the world it finds.\<close>

definition Book_init :: "env \<Rightarrow> (str \<rightharpoonup> content) \<Rightarrow> str list \<Rightarrow> exn option \<times> Book" where
  "Book_init E fs out =
     load_books E \<lparr>books_store = PList [], filename = lit ''books.json'',
                   books_directory = lit ''books'', files = fs, stdout = out\<rparr>"

section \<open>export_as_csv\<close>

text \<open>
  The \<open>csv\<close> writer with its default dialect: a field is quoted when it holds a comma, a
  double quote, a carriage return or a line feed (or is the only field of its row and empty);
  a double quote inside a quoted field is doubled; a row ends with \<open>\r\n\<close>. \<open>None\<close> is written as
  the empty field and a value that is no string as its \<open>str()\<close>.
\<close>

definition csv_special :: "nat \<Rightarrow> bool" where
  "csv_special c \<longleftrightarrow> c = 44 \<or> c = 34 \<or> c = 13 \<or> c = 10"

definition csv_field :: "bool \<Rightarrow> str \<Rightarrow> str" where
  "csv_field quote_empty field =
     (if list_ex csv_special field \<or> (field = [] \<and> quote_empty)
      then [34] @ concat (map (\<lambda>c. if c = 34 then [34, 34] else [c]) field) @ [34]
      else field)"

definition csv_text :: "env \<Rightarrow> pyval \<Rightarrow> str" where
  "csv_text E v = (case v of PStr s \<Rightarrow> s | PNone \<Rightarrow> [] | _ \<Rightarrow> py_str E v)"

definition writerow :: "str list \<Rightarrow> str" where
  "writerow row = join [44] (map (csv_field (length row = 1)) row) @ [13, 10]"

definition fieldnames :: "str list" where
  "fieldnames = [k_title, k_author, k_year, k_file_path]"

text \<open>\<open>{field: book[field] for field in writer.fieldnames}\<close>, as the values in that order.\<close>

fun row_values :: "pyval \<Rightarrow> str list \<Rightarrow> exn + pyval list" where
  "row_values book [] = Inr []"
| "row_values book (field # names) =
     (case py_getitem book field of
        Inl e \<Rightarrow> Inl e
      | Inr v \<Rightarrow> (case row_values book names of Inl e \<Rightarrow> Inl e | Inr vs \<Rightarrow> Inr (v # vs)))"

text \<open>
  The loop over the records: the exception that stopped it, if any, and the text the file
  holds then. A row that the locale's encoding cannot take raises in \<open>write\<close>, after the rows
  before it were written.
\<close>

fun export_rows :: "env \<Rightarrow> pyval list \<Rightarrow> str \<Rightarrow> exn option \<times> str" where
  "export_rows E [] written = (None, written)"
| "export_rows E (book # books) written =
     (case row_values book fieldnames of
        Inl e \<Rightarrow> (Some e, written)
      | Inr vs \<Rightarrow>
          (let row = writerow (map (csv_text E) vs)
           in if locale_encodable E row then export_rows E books (written @ row)
              else (Some (UnicodeEncodeError row), written)))"

definition export_as_csv :: "env \<Rightarrow> str \<Rightarrow> Book \<Rightarrow> exn option \<times> Book" where
  "export_as_csv E csv_filename self =
     (case files self (filename self) of
        None \<Rightarrow> (Some FileNotFoundError, self)
      | Some b \<Rightarrow>
          (case json_load E b of
             Inl e \<Rightarrow> (Some e, self)
           | Inr loaded \<Rightarrow>
               (case open_write E csv_filename of
                  Some e \<Rightarrow> (Some e, self)
                | None \<Rightarrow>
                    (let header = writerow fieldnames in
                     case py_iter loaded of
                       Inl e \<Rightarrow> (Some e, write_file csv_filename (Text header) self)
                     | Inr books \<Rightarrow>
                         (case export_rows E books header of
                            (Some e, written) \<Rightarrow>
                              (Some e, write_file csv_filename (Text written) self)
                          | (None, written) \<Rightarrow>
                              (None, print (lit ''Books exported to CSV file successfully!'')
                                       (write_file csv_filename (Text written) self)))))))"

section \<open>A sample world\<close>

text \<open>
  One concrete environment and one concrete library object, on which the theorems below are
  run: a validator that accepts \<open>http://\<close> URLs, a server with two addresses, a PDF of two
  pages (the second without a text layer), an OCR engine, a DOCX document of two paragraphs,
  a disk whose only directory is \<open>books\<close>, an ASCII locale, and the limits of a stock
  interpreter.
\<close>

definition sample_env :: env where
  "sample_env =
     \<lparr>validators_url = (\<lambda>u. take 7 u = lit ''http://''),
      requests_get =
        (\<lambda>u. if u = lit ''http://x.org/a.pdf'' \<or> u = lit ''http://x.org/dir/''
              then Inr \<lparr>status_code = 200, content = lit ''%PDF''\<rparr>
              else Inr \<lparr>status_code = 404, content = []\<rparr>),
      fitz_open =
        (\<lambda>p. if p = lit ''books/a.pdf''
              then Inr [\<lparr>get_text = lit ''Page one. '',
                         get_pixmap = \<lparr>width = 1, height = 1, samples = [0, 0, 0]\<rparr>\<rparr>,
                        \<lparr>get_text = lit ''  '',
                         get_pixmap = \<lparr>width = 1, height = 1, samples = [9, 9, 9]\<rparr>\<rparr>]
              else Inl NotFound),
      image_to_string = (\<lambda>img. Inr (lit ''Scanned.'')),
      docx_Document =
        (\<lambda>p. if p = lit ''books/b.docx'' then Inr [lit ''One'', lit ''Two'']
              else Inl (Failed (lit ''Package not found''))),
      py_str = (\<lambda>v. lit ''?''),
      open_w = (\<lambda>p. if 47 \<in> set p \<and> take 6 p \<noteq> lit ''books/'' then Some NotFound else None),
      locale_encodes = (\<lambda>c. False),
      locale_decode = (\<lambda>b. if list_all (\<lambda>c. c < 128) b then Some b else None),
      encode_error_message = (\<lambda>t. lit ''surrogates not allowed''),
      max_depth = 990,
      max_str_digits = 4300\<rparr>"

definition empty_book :: Book where
  "empty_book =
     \<lparr>books_store = PList [], filename = lit ''books.json'', books_directory = lit ''books'',
      files = Map.empty, stdout = []\<rparr>"

text \<open>A record as \<open>add_books\<close> builds it, and a store of three records, two of one title.\<close>

definition book_record :: "string \<Rightarrow> string \<Rightarrow> string \<Rightarrow> string \<Rightarrow> pyval" where
  "book_record t a y f =
     PDict [(lit ''title'', PStr (lit t)), (lit ''author'', PStr (lit a)),
            (lit ''year'', PStr (lit y)), (lit ''file_path'', PStr (lit f))]"

definition sample_book :: Book where
  "sample_book =
     empty_book\<lparr>books_store :=
       PList [book_record ''X'' ''Ann'' ''1990'' ''books/b.docx'',
              book_record ''T'' ''Bob'' ''2001'' ''books/a.pdf'',
              book_record ''T'' ''Cy'' ''2002'' ''books/c.txt'']\<rparr>"

text \<open>A library object whose \<open>books.json\<close> is what \<open>save_books\<close> writes for a store of one
  record.\<close>

definition saved_book :: Book where
  "saved_book =
     empty_book\<lparr>files := [lit ''books.json'' \<mapsto>
                    Text (json_dumps (PList [book_record ''a,b'' ''Ann'' ''1990'' ''books/b.docx'']))]\<rparr>"

text \<open>The library object of a first run (no \<open>books.json\<close>), and after one and two books were
  added to it.\<close>

definition started :: Book where
  "started = snd (Book_init sample_env Map.empty [])"

definition added_T :: Book where
  "added_T = snd (add_books sample_env (lit ''T'') (lit ''Ann'') (lit ''1990'') (lit ''http://x.org/a.pdf'') started)"

definition added_T_twice :: Book where
  "added_T_twice =
     snd (add_books sample_env (lit ''T'') (lit ''Bob'') (lit ''2001'') (lit ''http://x.org/a.pdf'') added_T)"

definition added_T_U :: Book where
  "added_T_U =
     snd (add_books sample_env (lit ''U'') (lit ''Bob'') (lit ''2001'') (lit ''http://x.org/a.pdf'') added_T)"


text \<open>A library object whose \<open>books.json\<close> holds one record, the title of which is the lone
  surrogate U+D800 (in the file: the escape \<open>\ud800\<close>).\<close>

definition surrogate_record :: pyval where
  "surrogate_record =
     PDict [(lit ''title'', PStr [55296]), (lit ''author'', PStr (lit ''Ann'')),
            (lit ''year'', PStr (lit ''1990'')), (lit ''file_path'', PStr (lit ''books/b.docx''))]"

definition surrogate_book :: Book where
  "surrogate_book =
     empty_book\<lparr>files := [lit ''books.json'' \<mapsto> Text (json_dumps (PList [surrogate_record]))]\<rparr>"

text \<open>A library object whose store holds one record, the title of which is a high surrogate
  followed by a low one (two characters).\<close>

definition split_pair_book :: Book where
  "split_pair_book =
     empty_book\<lparr>books_store :=
       PList [PDict [(lit ''title'', PStr [55357, 56832]), (lit ''author'', PStr (lit ''Ann'')),
                     (lit ''year'', PStr (lit ''1990'')), (lit ''file_path'', PStr (lit ''books/a.pdf''))]]\<rparr>"
section \<open>Notions the properties are stated with\<close>

text \<open>A record that has a title, and one other than \<open>t\<close>: the loops pass over it.\<close>

definition other_title :: "str \<Rightarrow> pyval \<Rightarrow> bool" where
  "other_title t book = (case py_getitem book k_title of Inl e \<Rightarrow> False | Inr v \<Rightarrow> v \<noteq> PStr t)"

text \<open>A dictionary after the four assignments of \<open>edit_book\<close>.\<close>

definition edited :: "(str \<times> pyval) list \<Rightarrow> pyval \<Rightarrow> pyval \<Rightarrow> pyval \<Rightarrow> pyval \<Rightarrow> (str \<times> pyval) list" where
  "edited kvs n1 n2 n3 n4 =
     dict_set (dict_set (dict_set (dict_set kvs k_title n1) k_author n2) k_year n3) k_file_path n4"

text \<open>The image \<open>read_book\<close> makes of a page, a page without a text layer, and the text that
  stands for a page: the OCR engine's answer for its image when it has no text layer, its
  text layer otherwise.\<close>

definition page_image :: "page \<Rightarrow> image" where
  "page_image p =
     Image_frombytes (lit ''RGB'') (width (get_pixmap p), height (get_pixmap p)) (samples (get_pixmap p))"

definition no_text_layer :: "page \<Rightarrow> bool" where
  "no_text_layer p \<longleftrightarrow> strip (get_text p) = []"

definition page_text :: "env \<Rightarrow> page \<Rightarrow> str" where
  "page_text E p =
     (if no_text_layer p
      then (case image_to_string E (page_image p) of Inl e \<Rightarrow> [] | Inr text \<Rightarrow> text)
      else get_text p)"

text \<open>The value a record holds under a key, and a record that holds one under each of the
  four field names.\<close>

definition field :: "pyval \<Rightarrow> str \<Rightarrow> pyval" where
  "field book k = (case py_getitem book k of Inl e \<Rightarrow> PNone | Inr v \<Rightarrow> v)"

definition has_fields :: "pyval \<Rightarrow> bool" where
  "has_fields book \<longleftrightarrow> list_all (\<lambda>k. case py_getitem book k of Inl e \<Rightarrow> False | Inr v \<Rightarrow> True) fieldnames"

text \<open>The row of the CSV file that stands for a record.\<close>

definition csv_row :: "env \<Rightarrow> pyval \<Rightarrow> str" where
  "csv_row E book =
     writerow [csv_text E (field book (lit ''title'')), csv_text E (field book (lit ''author'')),
               csv_text E (field book (lit ''year'')), csv_text E (field book (lit ''file_path''))]"

text \<open>
  A Python string: every code point is below \<open>0x110000\<close>. A string without a split pair: no
  high surrogate (\<open>0xd800\<close> to \<open>0xdbff\<close>) is directly followed by a low one (\<open>0xdc00\<close> to
  \<open>0xdfff\<close>); \<open>text_ok\<close> is both at once.
\<close>

definition is_str :: "str \<Rightarrow> bool" where
  "is_str s = list_all (\<lambda>c. c < 1114112) s"

fun no_split_pair :: "str \<Rightarrow> bool" where
  "no_split_pair (c # d # s) =
     (\<not> (55296 \<le> c \<and> c \<le> 56319 \<and> 56320 \<le> d \<and> d \<le> 57343) \<and> no_split_pair (d # s))"
| "no_split_pair s = True"

fun text_ok :: "str \<Rightarrow> bool" where
  "text_ok [] = True"
| "text_ok [c] = (c < 1114112)"
| "text_ok (c # d # s) =
     (c < 1114112 \<and> \<not> (55296 \<le> c \<and> c \<le> 56319 \<and> 56320 \<le> d \<and> d \<le> 57343) \<and> text_ok (d # s))"

text \<open>A dictionary of such strings under such keys, no key twice; and the text of one member
  of a dictionary in the encoder's output.\<close>

definition text_value :: "pyval \<Rightarrow> bool" where
  "text_value v = (case v of PStr s \<Rightarrow> text_ok s | _ \<Rightarrow> False)"

definition text_record :: "pyval \<Rightarrow> bool" where
  "text_record r =
     (case r of
        PDict kvs \<Rightarrow> distinct (map fst kvs) \<and> list_all (\<lambda>kv. text_ok (fst kv) \<and> text_value (snd kv)) kvs
      | _ \<Rightarrow> False)"

definition item :: "nat \<Rightarrow> str \<times> pyval \<Rightarrow> str" where
  "item level kv = encode_basestring_ascii (fst kv) @ lit '': '' @ iterencode level (snd kv)"

text \<open>A flat record: a dictionary whose keys are the four field names, each once, and whose
  values are strings. A record no string of which has a split pair.\<close>

definition flat_record :: "pyval \<Rightarrow> bool" where
  "flat_record r =
     (case r of
        PDict kvs \<Rightarrow>
          distinct (map fst kvs) \<and> set (map fst kvs) = set fieldnames
          \<and> list_all (\<lambda>kv. case snd kv of PStr s \<Rightarrow> is_str s | _ \<Rightarrow> False) kvs
      | _ \<Rightarrow> False)"

definition unsplit_record :: "pyval \<Rightarrow> bool" where
  "unsplit_record r =
     (case r of
        PDict kvs \<Rightarrow> list_all (\<lambda>kv. case snd kv of PStr s \<Rightarrow> no_split_pair s | _ \<Rightarrow> False) kvs
      | _ \<Rightarrow> False)"

text \<open>The titles of the records of a store, and a store in which no two records have equal
  titles.\<close>

definition titles :: "pyval \<Rightarrow> (exn + pyval) list" where
  "titles store = (case store of PList xs \<Rightarrow> map (\<lambda>book. py_getitem book k_title) xs | _ \<Rightarrow> [])"

definition unique_titles :: "pyval \<Rightarrow> bool" where
  "unique_titles store \<longleftrightarrow> distinct (titles store)"

text \<open>
  The stores the program reaches: \<open>main\<close> builds the object and then runs the method the user
  chooses, again and again, as long as no exception leaves a method. (\<open>view_books\<close> only
  prints and is left out.)
\<close>

inductive reachable :: "env \<Rightarrow> Book \<Rightarrow> bool" for E where
  start: "Book_init E fs out = (None, self) \<Longrightarrow> reachable E self"
| add: "reachable E self \<Longrightarrow> add_books E title author publication_date book_url self = (None, self')
        \<Longrightarrow> reachable E self'"
| edit: "reachable E self \<Longrightarrow> edit_book edit in_title in_author in_date in_path self = (None, self')
        \<Longrightarrow> reachable E self'"
| remove: "reachable E self \<Longrightarrow> remove_book remove self = (None, self') \<Longrightarrow> reachable E self'"
| save: "reachable E self \<Longrightarrow> save_books E self = (None, self') \<Longrightarrow> reachable E self'"
| export: "reachable E self \<Longrightarrow> export_as_csv E (lit ''books.csv'') self = (None, self')
        \<Longrightarrow> reachable E self'"
| read: "reachable E self \<Longrightarrow> read_book E title self = (None, self') \<Longrightarrow> reachable E self'"

text \<open>
  The same, for a user who never enters a title that is already in the store, starting from
  a file in which no two records have equal titles.
\<close>

inductive reachable_fresh :: "env \<Rightarrow> Book \<Rightarrow> bool" for E where
  start: "Book_init E fs out = (None, self) \<Longrightarrow> unique_titles (books_store self)
        \<Longrightarrow> reachable_fresh E self"
| add: "reachable_fresh E self \<Longrightarrow> Inr (PStr title) \<notin> set (titles (books_store self))
        \<Longrightarrow> add_books E title author publication_date book_url self = (None, self')
        \<Longrightarrow> reachable_fresh E self'"
| edit: "reachable_fresh E self
        \<Longrightarrow> strip in_title = [] \<or> strip in_title = edit
            \<or> Inr (PStr (strip in_title)) \<notin> set (titles (books_store self))
        \<Longrightarrow> edit_book edit in_title in_author in_date in_path self = (None, self')
        \<Longrightarrow> reachable_fresh E self'"
| remove: "reachable_fresh E self \<Longrightarrow> remove_book remove self = (None, self')
        \<Longrightarrow> reachable_fresh E self'"
| save: "reachable_fresh E self \<Longrightarrow> save_books E self = (None, self') \<Longrightarrow> reachable_fresh E self'"
| export: "reachable_fresh E self \<Longrightarrow> export_as_csv E (lit ''books.csv'') self = (None, self')
        \<Longrightarrow> reachable_fresh E self'"
| read: "reachable_fresh E self \<Longrightarrow> read_book E title self = (None, self')
        \<Longrightarrow> reachable_fresh E self'"

section \<open>add_books: what is appended, and when\<close>

lemma basename_no_slash: "47 \<notin> set (basename p)"
  unfolding basename_def using set_takeWhileD by fastforce

lemma path_join_books: "path_join (lit ''books'') (basename u) = lit ''books/'' @ basename u"
proof -
  have "basename u = [] \<or> hd (basename u) \<noteq> 47"
    using basename_no_slash [of u] by (cases "basename u") auto
  then show ?thesis by (auto simp: path_join_def lit_def)
qed

text \<open>
  C9. When the URL fails validation, or the download answers with a status code other than
  200, \<open>add_books\<close> returns (no exception leaves it) and neither the store nor the files have
  changed: no record is appended and nothing is saved.
\<close>

theorem add_books_failure_keeps_store:
  assumes "\<not> validators_url E book_url
           \<or> (\<exists>r. requests_get E book_url = Inr r \<and> status_code r \<noteq> 200)"
  shows "fst (add_books E title author publication_date book_url self) = None
       \<and> books_store (snd (add_books E title author publication_date book_url self)) = books_store self
       \<and> files (snd (add_books E title author publication_date book_url self)) = files self"
  using assms by (auto simp: add_books_def print_def)

theorem add_books_failure_keeps_store_witness:
  "requests_get sample_env (lit ''http://x.org/b.pdf'') = Inr \<lparr>status_code = 404, content = []\<rparr>
   \<and> fst (add_books sample_env (lit ''T'') (lit ''A'') (lit ''1999'') (lit ''http://x.org/b.pdf'')
            empty_book) = None
   \<and> books_store (snd (add_books sample_env (lit ''T'') (lit ''A'') (lit ''1999'')
                          (lit ''http://x.org/b.pdf'') empty_book)) = PList []"
proof -
  have g: "requests_get sample_env (lit ''http://x.org/b.pdf'') = Inr \<lparr>status_code = 404, content = []\<rparr>"
    by (simp add: sample_env_def lit_def)
  have h: "\<not> validators_url sample_env (lit ''http://x.org/b.pdf'')
      \<or> (\<exists>r. requests_get sample_env (lit ''http://x.org/b.pdf'') = Inr r \<and> status_code r \<noteq> 200)"
    using g by simp
  show ?thesis
    using g add_books_failure_keeps_store [OF h, of "lit ''T''" "lit ''A''" "lit ''1999''" empty_book]
    by (simp add: empty_book_def)
qed

text \<open>
  C8. On a store that is a list, \<open>add_books\<close> appends a record exactly when the URL is valid,
  the download answers 200 and the file of the download can be opened; the record is then
  the dictionary of the four keys \<open>title\<close>, \<open>author\<close>, \<open>year\<close> and \<open>file_path\<close>, in this order:
  the first three hold the strings the user entered, the last the books directory joined with
  the base name of the URL. In every other case the store is what it was.
\<close>

theorem add_books_record_shape:
  assumes "books_store self = PList xs"
  shows "books_store (snd (add_books E title author publication_date book_url self)) =
           (if validators_url E book_url
               \<and> (\<exists>r. requests_get E book_url = Inr r \<and> status_code r = 200)
               \<and> open_write E (path_join (books_directory self) (basename book_url)) = None
            then PList (xs @ [PDict [(lit ''title'', PStr title), (lit ''author'', PStr author),
                                     (lit ''year'', PStr publication_date),
                                     (lit ''file_path'',
                                      PStr (path_join (books_directory self) (basename book_url)))]])
            else PList xs)"
  using assms
  by (auto simp: add_books_def print_def write_file_def Let_def k_title_def k_author_def k_year_def
        k_file_path_def split: sum.splits option.splits)

theorem add_books_record_shape_witness:
  "books_store empty_book = PList []
   \<and> books_store (snd (add_books sample_env (lit ''T'') (lit ''A'') (lit ''1999'')
                          (lit ''http://x.org/a.pdf'') empty_book))
       = PList [PDict [(lit ''title'', PStr (lit ''T'')), (lit ''author'', PStr (lit ''A'')),
                       (lit ''year'', PStr (lit ''1999'')),
                       (lit ''file_path'', PStr (lit ''books/a.pdf''))]]
   \<and> open_write sample_env (path_join (books_directory empty_book) (basename (lit ''http://x.org/dir/'')))
       = Some IsADirectoryError
   \<and> books_store (snd (add_books sample_env (lit ''T'') (lit ''A'') (lit ''1999'')
                          (lit ''http://x.org/dir/'') empty_book)) = PList []"
proof -
  have h: "books_store empty_book = PList []" by (simp add: empty_book_def)
  have v: "validators_url sample_env (lit ''http://x.org/a.pdf'')
           \<and> (\<exists>r. requests_get sample_env (lit ''http://x.org/a.pdf'') = Inr r \<and> status_code r = 200)"
    by (simp add: sample_env_def lit_def)
  have p: "path_join (books_directory empty_book) (basename (lit ''http://x.org/a.pdf''))
           = lit ''books/a.pdf''"
    by (simp add: empty_book_def path_join_def basename_def lit_def)
  have o: "open_write sample_env (lit ''books/a.pdf'') = None"
    by (simp add: open_write_def sample_env_def lit_def)
  have q: "path_join (books_directory empty_book) (basename (lit ''http://x.org/dir/'')) = lit ''books/''"
    by (simp add: empty_book_def path_join_def basename_def lit_def)
  have d: "open_write sample_env (lit ''books/'') = Some IsADirectoryError"
    by (simp add: open_write_def lit_def)
  have a: "books_store (snd (add_books sample_env (lit ''T'') (lit ''A'') (lit ''1999'')
                          (lit ''http://x.org/a.pdf'') empty_book))
       = PList [PDict [(lit ''title'', PStr (lit ''T'')), (lit ''author'', PStr (lit ''A'')),
                       (lit ''year'', PStr (lit ''1999'')),
                       (lit ''file_path'', PStr (lit ''books/a.pdf''))]]"
    using v p o
      add_books_record_shape [OF h, of sample_env "lit ''T''" "lit ''A''" "lit ''1999''"
        "lit ''http://x.org/a.pdf''"]
    by simp
  have b: "books_store (snd (add_books sample_env (lit ''T'') (lit ''A'') (lit ''1999'')
                          (lit ''http://x.org/dir/'') empty_book)) = PList []"
    using q d
      add_books_record_shape [OF h, of sample_env "lit ''T''" "lit ''A''" "lit ''1999''"
        "lit ''http://x.org/dir/''"]
    by simp
  show ?thesis
    unfolding q by (intro conjI) (rule h, rule a, rule d, rule b)
qed

section \<open>load_books: a missing or malformed file\<close>

lemma skip_ws_brackets: "skip_ws (replicate (Suc d) 91 @ rest) = replicate (Suc d) 91 @ rest"
  by (simp add: skip_ws_def json_ws_def)

lemma deep_nesting:
  "2 * d < n \<Longrightarrow> scan_once n d lim (replicate (Suc d) 91 @ rest) = Inl RecursionError"
proof (induction d arbitrary: n)
  case 0
  then obtain m where "n = Suc m" by (cases n) auto
  then show ?case by simp
next
  case (Suc d)
  then obtain m where n: "n = Suc (Suc m)" and m: "2 * d < m"
    by (cases n; cases "n - 1") auto
  let ?s = "replicate (Suc d) 91 @ rest"
  have s: "skip_ws ?s = ?s" by (rule skip_ws_brackets)
  have h: "?s \<noteq> [] \<and> hd ?s \<noteq> 93" by simp
  have i: "scan_once m d lim ?s = Inl RecursionError" using m by (rule Suc.IH)
  have "scan_once (Suc (Suc m)) (Suc d) lim (91 # ?s) = Inl RecursionError"
    by (subst scan_once.simps)
       (use h in \<open>simp add: s i del: scan_once.simps replicate.simps\<close>)
  then show ?case by (simp add: n del: scan_once.simps)
qed

lemma json_loads_too_deep: "json_loads E (replicate (Suc (max_depth E)) 91) = Inl RecursionError"
proof -
  have "scan_once (2 * length (replicate (Suc (max_depth E)) (91::nat)) + 1) (max_depth E)
          (max_str_digits E) (replicate (Suc (max_depth E)) 91 @ []) = Inl RecursionError"
    by (rule deep_nesting) simp
  then show ?thesis
    using skip_ws_brackets [of "max_depth E" "[]"]
    by (simp add: json_loads_def del: scan_once.simps replicate.simps)
qed

text \<open>
  C6, as the claim states it, fails: \<open>load_books\<close> catches two exceptions only. A \<open>books.json\<close>
  whose bytes are no text, or whose text opens more arrays than the interpreter lets the
  decoder nest, is not valid JSON, and \<open>UnicodeDecodeError\<close> or \<open>RecursionError\<close> leaves
  \<open>load_books\<close>, with nothing printed.
\<close>

theorem load_books_error_handling_counterexample:
  "load_books sample_env (empty_book\<lparr>files := [lit ''books.json'' \<mapsto> Binary [255]]\<rparr>) =
     (Some UnicodeDecodeError, empty_book\<lparr>files := [lit ''books.json'' \<mapsto> Binary [255]]\<rparr>)
   \<and> load_books sample_env (empty_book\<lparr>files := [lit ''books.json'' \<mapsto> Text (replicate 991 91)]\<rparr>) =
     (Some RecursionError, empty_book\<lparr>files := [lit ''books.json'' \<mapsto> Text (replicate 991 91)]\<rparr>)"
proof
  have "read_text sample_env (Binary [255]) = Inl UnicodeDecodeError"
    by (simp add: read_text_def sample_env_def)
  then show "load_books sample_env (empty_book\<lparr>files := [lit ''books.json'' \<mapsto> Binary [255]]\<rparr>) =
     (Some UnicodeDecodeError, empty_book\<lparr>files := [lit ''books.json'' \<mapsto> Binary [255]]\<rparr>)"
    by (simp add: load_books_def json_load_def empty_book_def)
  have "max_depth sample_env = 990" by (simp add: sample_env_def)
  then have "json_loads sample_env (replicate (Suc 990) 91) = Inl RecursionError"
    using json_loads_too_deep [of sample_env] by simp
  moreover have "Suc 990 = 991" by simp
  ultimately have "json_loads sample_env (replicate 991 91) = Inl RecursionError"
    by (simp only:)
  then show "load_books sample_env (empty_book\<lparr>files := [lit ''books.json'' \<mapsto> Text (replicate 991 91)]\<rparr>) =
     (Some RecursionError, empty_book\<lparr>files := [lit ''books.json'' \<mapsto> Text (replicate 991 91)]\<rparr>)"
    by (simp add: load_books_def json_load_def empty_book_def read_text_def)
qed

text \<open>
  C6, amended. When the file named by \<open>filename\<close> (\<open>books.json\<close> from \<open>__init__\<close> on) is absent,
  or \<open>json.load\<close> refuses it with \<open>JSONDecodeError\<close>, \<open>load_books\<close> returns without
  an exception, has printed one message and has set the store to the empty list; nothing
  else has changed. Neither \<open>FileNotFoundError\<close> nor \<open>JSONDecodeError\<close> ever leaves
  \<open>load_books\<close>; an exception that does leave it (\<open>UnicodeDecodeError\<close>, \<open>RecursionError\<close>,
  \<open>ValueError\<close>) leaves the state as it was.
\<close>

theorem load_books_error_handling:
  "((files self (filename self) = None
      \<or> (\<exists>b. files self (filename self) = Some b \<and> json_load E b = Inl JSONDecodeError))
     \<longrightarrow> load_books E self =
           (None, self\<lparr>books_store := PList [],
                       stdout := stdout self @ [lit ''Starting with an empty book store.'' @ [10]]\<rparr>))
   \<and> fst (load_books E self) \<noteq> Some FileNotFoundError
   \<and> fst (load_books E self) \<noteq> Some JSONDecodeError
   \<and> (fst (load_books E self) \<noteq> None \<longrightarrow> snd (load_books E self) = self)"
  by (auto simp: load_books_def starting_empty_def print_def split: option.splits sum.splits)

theorem load_books_error_handling_witness:
  "files (empty_book\<lparr>books_store := PNone, files := [lit ''books.json'' \<mapsto> Text (lit ''[1,'')]\<rparr>)
     (lit ''books.json'') = Some (Text (lit ''[1,''))
   \<and> json_load sample_env (Text (lit ''[1,'')) = Inl JSONDecodeError
   \<and> load_books sample_env
         (empty_book\<lparr>books_store := PNone, files := [lit ''books.json'' \<mapsto> Text (lit ''[1,'')]\<rparr>) =
       (None, empty_book\<lparr>books_store := PList [],
                         files := [lit ''books.json'' \<mapsto> Text (lit ''[1,'')],
                         stdout := [lit ''Starting with an empty book store.'' @ [10]]\<rparr>)"
proof -
  let ?s = "empty_book\<lparr>books_store := PNone, files := [lit ''books.json'' \<mapsto> Text (lit ''[1,'')]\<rparr>"
  have j: "json_load sample_env (Text (lit ''[1,'')) = Inl JSONDecodeError"
    by (simp add: json_load_def read_text_def) code_simp
  have f: "files ?s (filename ?s) = Some (Text (lit ''[1,''))" by (simp add: empty_book_def)
  have h: "files ?s (filename ?s) = None
           \<or> (\<exists>b. files ?s (filename ?s) = Some b \<and> json_load sample_env b = Inl JSONDecodeError)"
    using j f by blast
  have "load_books sample_env ?s =
           (None, ?s\<lparr>books_store := PList [],
                     stdout := stdout ?s @ [lit ''Starting with an empty book store.'' @ [10]]\<rparr>)"
    using conjunct1 [OF load_books_error_handling [of ?s sample_env]] h by blast
  then show ?thesis
    using j f by (simp add: empty_book_def)
qed

section \<open>Linear search by title\<close>

lemma remove_loop_first:
  "list_all (other_title t) pre \<Longrightarrow> py_getitem book k_title = Inr (PStr t)
   \<Longrightarrow> remove_loop t i (pre @ book # post) = Inr (Some (i + length pre))"
  by (induction pre arbitrary: i) (auto simp: other_title_def split: sum.splits)

lemma remove_loop_none:
  "list_all (other_title t) xs \<Longrightarrow> remove_loop t i xs = Inr None"
  by (induction xs arbitrary: i) (auto simp: other_title_def split: sum.splits)

lemma edit_loop_first:
  "list_all (other_title t) pre \<Longrightarrow> py_getitem book k_title = Inr (PStr t)
   \<Longrightarrow> edit_loop t a b c d (pre @ book # post) =
       (case edit_record a b c d book of Inl e \<Rightarrow> Inl e | Inr book' \<Rightarrow> Inr (Some (pre @ book' # post)))"
  by (induction pre) (auto simp: other_title_def split: sum.splits)

lemma edit_loop_none:
  "list_all (other_title t) xs \<Longrightarrow> edit_loop t a b c d xs = Inr None"
  by (induction xs) (auto simp: other_title_def split: sum.splits)

lemma read_loop_first:
  "list_all (other_title t) pre \<Longrightarrow> py_getitem book k_title = Inr (PStr t)
   \<Longrightarrow> read_loop E t (pre @ book # post) self =
       (case py_getitem book k_file_path of
          Inl e \<Rightarrow> (Some e, self)
        | Inr file_path \<Rightarrow> (None, read_try E t file_path self))"
  by (induction pre) (auto simp: other_title_def split: sum.splits)

lemma read_loop_none:
  "list_all (other_title t) xs \<Longrightarrow> read_loop E t xs self =
     (None, print (lit ''Book titled '' @ quoted t @ lit '' not found in the store.'') self)"
  by (induction xs) (auto simp: other_title_def split: sum.splits)

lemma books_store_print [simp]: "books_store (print s self) = books_store self"
  by (simp add: print_def)

lemma files_print [simp]: "files (print s self) = files self"
  by (simp add: print_def)

lemma books_store_write_file [simp]: "books_store (write_file p x self) = books_store self"
  by (simp add: write_file_def)

lemma books_store_write_txt [simp]: "books_store (snd (write_txt E p x self)) = books_store self"
  by (simp add: write_txt_def split: option.splits)

lemma read_body_store: "books_store (snd (read_body E t fp self)) = books_store self"
  by (auto simp: read_body_def Let_def split: pyval.splits sum.splits prod.splits)

lemma read_try_store: "books_store (read_try E t fp self) = books_store self"
  using read_body_store [of E t fp self]
  by (auto simp: read_try_def split: prod.splits option.splits exn.splits)

text \<open>
  C4. \<open>read_book\<close>, \<open>edit_book\<close> and \<open>remove_book\<close> act on the first record whose title is the
  input. Let the store be \<open>pre @ book # post\<close>, where no record of \<open>pre\<close> has the title and
  \<open>book\<close> has it. Then \<open>remove_book\<close> leaves \<open>pre @ post\<close> (one record fewer, \<open>post\<close> untouched
  even where it holds the title again), \<open>edit_book\<close> replaces \<open>book\<close> by its edited version and
  leaves \<open>pre\<close> and \<open>post\<close> as they are, and \<open>read_book\<close> reads the file of \<open>book\<close> and leaves the
  store as it is. When no record of the store has the title, each of the three prints its
  not-found message and changes nothing else.
\<close>

theorem first_match_linear_search:
  "(books_store self = PList (pre @ book # post) \<and> list_all (other_title t) pre
      \<and> py_getitem book k_title = Inr (PStr t)
    \<longrightarrow> remove_book t self =
          (None, print (lit ''Book '' @ quoted t @ lit '' deleted successfully!'')
                   (self\<lparr>books_store := PList (pre @ post)\<rparr>))
      \<and> (edit_record a b c d book = Inr book'
          \<longrightarrow> edit_book t a b c d self =
                (None, print (lit ''Book details updated successfully!'')
                         (self\<lparr>books_store := PList (pre @ book' # post)\<rparr>)))
      \<and> (py_getitem book k_file_path = Inr file_path
          \<longrightarrow> read_book E t self = (None, read_try E t file_path self)
              \<and> books_store (read_try E t file_path self) = PList (pre @ book # post)))
   \<and> (books_store self = PList xs \<and> list_all (other_title t) xs
    \<longrightarrow> remove_book t self =
          (None, print (lit ''Book with title '' @ quoted t @ lit '' not found.'') self)
      \<and> edit_book t a b c d self = (None, print (lit ''Book title not found.'') self)
      \<and> read_book E t self =
          (None, print (lit ''Book titled '' @ quoted t @ lit '' not found in the store.'') self))"
  by (auto simp: remove_book_def edit_book_def read_book_def remove_loop_first remove_loop_none
        edit_loop_first edit_loop_none read_loop_first read_loop_none read_try_store)


theorem first_match_linear_search_witness:
  "remove_book (lit ''T'') sample_book =
     (None, print (lit ''Book '' @ quoted (lit ''T'') @ lit '' deleted successfully!'')
              (sample_book\<lparr>books_store :=
                 PList [book_record ''X'' ''Ann'' ''1990'' ''books/b.docx'',
                        book_record ''T'' ''Cy'' ''2002'' ''books/c.txt'']\<rparr>))
   \<and> edit_book (lit ''T'') (lit '' U '') [] [] [] sample_book =
     (None, print (lit ''Book details updated successfully!'')
              (sample_book\<lparr>books_store :=
                 PList [book_record ''X'' ''Ann'' ''1990'' ''books/b.docx'',
                        book_record ''U'' ''Bob'' ''2001'' ''books/a.pdf'',
                        book_record ''T'' ''Cy'' ''2002'' ''books/c.txt'']\<rparr>))
   \<and> read_book sample_env (lit ''T'') sample_book =
       (None, read_try sample_env (lit ''T'') (PStr (lit ''books/a.pdf'')) sample_book)
   \<and> remove_book (lit ''Z'') sample_book =
       (None, print (lit ''Book with title '' @ quoted (lit ''Z'') @ lit '' not found.'') sample_book)
   \<and> edit_book (lit ''Z'') (lit '' U '') [] [] [] sample_book =
       (None, print (lit ''Book title not found.'') sample_book)
   \<and> read_book sample_env (lit ''Z'') sample_book =
       (None, print (lit ''Book titled '' @ quoted (lit ''Z'') @ lit '' not found in the store.'')
                sample_book)"
proof -
  let ?r0 = "book_record ''X'' ''Ann'' ''1990'' ''books/b.docx''"
  let ?r1 = "book_record ''T'' ''Bob'' ''2001'' ''books/a.pdf''"
  let ?r2 = "book_record ''T'' ''Cy'' ''2002'' ''books/c.txt''"
  have s1: "books_store sample_book = PList ([?r0] @ ?r1 # [?r2])"
    by (simp add: sample_book_def)
  have s2: "books_store sample_book = PList [?r0, ?r1, ?r2]"
    by (simp add: sample_book_def)
  have p1: "list_all (other_title (lit ''T'')) [?r0]"
    by (simp add: other_title_def book_record_def k_title_def lit_def)
  have p2: "list_all (other_title (lit ''Z'')) [?r0, ?r1, ?r2]"
    by (simp add: other_title_def book_record_def k_title_def lit_def)
  have t: "py_getitem ?r1 k_title = Inr (PStr (lit ''T''))"
    by (simp add: book_record_def k_title_def)
  have f: "py_getitem ?r1 k_file_path = Inr (PStr (lit ''books/a.pdf''))"
    by (simp add: book_record_def k_file_path_def lit_def)
  have sp: "strip (lit '' U '') = lit ''U''" "strip [] = []"
    by (simp_all add: strip_def isspace_def lit_def)
  have e: "edit_record (lit '' U '') [] [] [] ?r1 = Inr (book_record ''U'' ''Bob'' ''2001'' ''books/a.pdf'')"
    unfolding edit_record_def or_current_def assign_if_changed_def sp
    by (simp add: book_record_def k_title_def k_author_def k_year_def k_file_path_def lit_def)
  show ?thesis
    using first_match_linear_search [of sample_book "[?r0]" ?r1 "[?r2]" "lit ''T''"
        "lit '' U ''" "[]" "[]" "[]" "book_record ''U'' ''Bob'' ''2001'' ''books/a.pdf''"
        "PStr (lit ''books/a.pdf'')" sample_env "[]"]
      first_match_linear_search [of sample_book "[]" PNone "[]" "lit ''Z''"
        "lit '' U ''" "[]" "[]" "[]" PNone PNone sample_env "[?r0, ?r1, ?r2]"]
      s1 s2 p1 p2 t f e
    by simp
qed

section \<open>edit_book: blank answers keep the value\<close>

lemma strip_empty_iff: "strip s = [] \<longleftrightarrow> list_all isspace s"
proof
  assume "strip s = []"
  then have e: "dropWhile isspace (rev (dropWhile isspace s)) = []"
    by (simp add: strip_def)
  show "list_all isspace s"
  proof (cases "dropWhile isspace s")
    case Nil
    then have "\<forall>x\<in>set s. isspace x" by (simp only: dropWhile_eq_Nil_conv)
    then show ?thesis by (simp add: list_all_iff)
  next
    case (Cons x xs)
    then have "\<not> isspace x" using hd_dropWhile [of isspace s] by fastforce
    moreover have "isspace x" using e Cons by (simp add: dropWhile_eq_Nil_conv)
    ultimately show ?thesis by simp
  qed
next
  assume "list_all isspace s"
  then have "\<forall>x\<in>set s. isspace x" by (simp add: list_all_iff)
  then have "dropWhile isspace s = []" by (simp only: dropWhile_eq_Nil_conv)
  then show "strip s = []" by (simp add: strip_def del: dropWhile_eq_Nil_conv)
qed

lemma dict_set_same: "map_of kvs k = Some v \<Longrightarrow> dict_set kvs k v = kvs"
  by (induction kvs) (auto split: if_splits)

lemma map_of_dict_set: "map_of (dict_set kvs k v) = (map_of kvs)(k \<mapsto> v)"
  by (induction kvs) (auto simp: fun_eq_iff)

lemma keys_dict_set: "map_of kvs k = Some v' \<Longrightarrow> map fst (dict_set kvs k v) = map fst kvs"
  by (induction kvs) (auto split: if_splits)

lemma assign_if_changed_dict:
  "map_of kvs k = Some current \<Longrightarrow> assign_if_changed (PDict kvs) k new = Inr (PDict (dict_set kvs k new))"
  by (simp add: assign_if_changed_def dict_set_same)

lemma keys_distinct:
  "k_title \<noteq> k_author" "k_title \<noteq> k_year" "k_title \<noteq> k_file_path"
  "k_author \<noteq> k_year" "k_author \<noteq> k_file_path" "k_year \<noteq> k_file_path"
  by (simp_all add: k_title_def k_author_def k_year_def k_file_path_def lit_def)

lemma edit_record_dict:
  assumes "map_of kvs k_title = Some v1" "map_of kvs k_author = Some v2"
    "map_of kvs k_year = Some v3" "map_of kvs k_file_path = Some v4"
  shows "edit_record a b c d (PDict kvs) =
           Inr (PDict (edited kvs (or_current a v1) (or_current b v2) (or_current c v3) (or_current d v4)))"
proof -
  let ?k1 = "dict_set kvs k_title (or_current a v1)"
  let ?k2 = "dict_set ?k1 k_author (or_current b v2)"
  let ?k3 = "dict_set ?k2 k_year (or_current c v3)"
  have 1: "assign_if_changed (PDict kvs) k_title (or_current a v1) = Inr (PDict ?k1)"
    using assms(1) by (rule assign_if_changed_dict)
  have "map_of ?k1 k_author = Some v2"
    using assms(2) keys_distinct by (simp add: map_of_dict_set)
  then have 2: "assign_if_changed (PDict ?k1) k_author (or_current b v2) = Inr (PDict ?k2)"
    by (rule assign_if_changed_dict)
  have "map_of ?k2 k_year = Some v3"
    using assms(3) keys_distinct by (simp add: map_of_dict_set)
  then have 3: "assign_if_changed (PDict ?k2) k_year (or_current c v3) = Inr (PDict ?k3)"
    by (rule assign_if_changed_dict)
  have "map_of ?k3 k_file_path = Some v4"
    using assms(4) keys_distinct by (simp add: map_of_dict_set)
  then have 4: "assign_if_changed (PDict ?k3) k_file_path (or_current d v4)
                = Inr (PDict (dict_set ?k3 k_file_path (or_current d v4)))"
    by (rule assign_if_changed_dict)
  show ?thesis
    using assms 1 2 3 4 by (simp add: edit_record_def edited_def Let_def)
qed

lemma keys_edited:
  assumes "map_of kvs k_title = Some v1" "map_of kvs k_author = Some v2"
    "map_of kvs k_year = Some v3" "map_of kvs k_file_path = Some v4"
  shows "map fst (edited kvs n1 n2 n3 n4) = map fst kvs"
proof -
  let ?k1 = "dict_set kvs k_title n1"
  let ?k2 = "dict_set ?k1 k_author n2"
  let ?k3 = "dict_set ?k2 k_year n3"
  have a: "map fst ?k1 = map fst kvs" using assms(1) by (rule keys_dict_set)
  have "map_of ?k1 k_author = Some v2" using assms(2) keys_distinct by (simp add: map_of_dict_set)
  then have b: "map fst ?k2 = map fst ?k1" by (rule keys_dict_set)
  have "map_of ?k2 k_year = Some v3" using assms(3) keys_distinct by (simp add: map_of_dict_set)
  then have c: "map fst ?k3 = map fst ?k2" by (rule keys_dict_set)
  have "map_of ?k3 k_file_path = Some v4" using assms(4) keys_distinct by (simp add: map_of_dict_set)
  then have d: "map fst (dict_set ?k3 k_file_path n4) = map fst ?k3" by (rule keys_dict_set)
  show ?thesis using a b c d by (simp add: edited_def)
qed

lemma map_of_edited:
  "map_of (edited kvs n1 n2 n3 n4) =
     (map_of kvs)(k_title \<mapsto> n1, k_author \<mapsto> n2, k_year \<mapsto> n3, k_file_path \<mapsto> n4)"
  by (simp add: edited_def map_of_dict_set)

text \<open>
  C10. Let the store be \<open>pre @ PDict kvs # post\<close>, where no record of \<open>pre\<close> has the title
  \<open>edit\<close> and the dictionary \<open>kvs\<close> has it and holds the four keys. Then \<open>edit_book\<close> replaces
  that one dictionary and leaves \<open>pre\<close> and \<open>post\<close> as they are. The new dictionary has the keys
  of the old one, in the same order; under each of the four keys it holds the old value when
  the answer is empty or consists of white space only, and the stripped answer otherwise;
  under any other key it holds what it held.
\<close>

theorem edit_book_keeps_blank_fields:
  assumes "books_store self = PList (pre @ PDict kvs # post)"
    and "list_all (other_title edit) pre"
    and "map_of kvs k_title = Some (PStr edit)" and "map_of kvs k_author = Some v2"
    and "map_of kvs k_year = Some v3" and "map_of kvs k_file_path = Some v4"
  shows "\<exists>kvs'.
           edit_book edit in_title in_author in_date in_path self =
             (None, print (lit ''Book details updated successfully!'')
                      (self\<lparr>books_store := PList (pre @ PDict kvs' # post)\<rparr>))
         \<and> map fst kvs' = map fst kvs
         \<and> map_of kvs' =
             (map_of kvs)
               (k_title \<mapsto> if list_all isspace in_title then PStr edit else PStr (strip in_title),
                k_author \<mapsto> if list_all isspace in_author then v2 else PStr (strip in_author),
                k_year \<mapsto> if list_all isspace in_date then v3 else PStr (strip in_date),
                k_file_path \<mapsto> if list_all isspace in_path then v4 else PStr (strip in_path))"
proof -
  let ?kvs' = "edited kvs (or_current in_title (PStr edit)) (or_current in_author v2)
                 (or_current in_date v3) (or_current in_path v4)"
  have t: "py_getitem (PDict kvs) k_title = Inr (PStr edit)"
    using assms(3) by simp
  have r: "edit_record in_title in_author in_date in_path (PDict kvs) = Inr (PDict ?kvs')"
    using assms(3-6) by (rule edit_record_dict)
  have "edit_loop edit in_title in_author in_date in_path (pre @ PDict kvs # post)
          = Inr (Some (pre @ PDict ?kvs' # post))"
    using edit_loop_first [OF assms(2) t, of in_title in_author in_date in_path post] r by simp
  then have "edit_book edit in_title in_author in_date in_path self =
             (None, print (lit ''Book details updated successfully!'')
                      (self\<lparr>books_store := PList (pre @ PDict ?kvs' # post)\<rparr>))"
    using assms(1) by (simp add: edit_book_def)
  moreover have "map fst ?kvs' = map fst kvs"
    using assms(3-6) by (rule keys_edited)
  moreover have "map_of ?kvs' =
             (map_of kvs)
               (k_title \<mapsto> if list_all isspace in_title then PStr edit else PStr (strip in_title),
                k_author \<mapsto> if list_all isspace in_author then v2 else PStr (strip in_author),
                k_year \<mapsto> if list_all isspace in_date then v3 else PStr (strip in_date),
                k_file_path \<mapsto> if list_all isspace in_path then v4 else PStr (strip in_path))"
    by (simp add: map_of_edited or_current_def strip_empty_iff)
  ultimately show ?thesis by blast
qed

theorem edit_book_keeps_blank_fields_witness:
  "books_store sample_book =
     PList ([book_record ''X'' ''Ann'' ''1990'' ''books/b.docx'']
            @ PDict [(lit ''title'', PStr (lit ''T'')), (lit ''author'', PStr (lit ''Bob'')),
                     (lit ''year'', PStr (lit ''2001'')), (lit ''file_path'', PStr (lit ''books/a.pdf''))]
            # [book_record ''T'' ''Cy'' ''2002'' ''books/c.txt''])
   \<and> list_all (other_title (lit ''T'')) [book_record ''X'' ''Ann'' ''1990'' ''books/b.docx'']
   \<and> (\<exists>kvs'.
         edit_book (lit ''T'') (lit '' U '') [] (lit ''  '') (lit ''books/u.pdf'') sample_book =
           (None, print (lit ''Book details updated successfully!'')
                    (sample_book\<lparr>books_store :=
                       PList ([book_record ''X'' ''Ann'' ''1990'' ''books/b.docx''] @ PDict kvs'
                              # [book_record ''T'' ''Cy'' ''2002'' ''books/c.txt''])\<rparr>))
         \<and> map fst kvs' = [lit ''title'', lit ''author'', lit ''year'', lit ''file_path'']
         \<and> map_of kvs' (lit ''title'') = Some (PStr (lit ''U''))
         \<and> map_of kvs' (lit ''author'') = Some (PStr (lit ''Bob''))
         \<and> map_of kvs' (lit ''year'') = Some (PStr (lit ''2001''))
         \<and> map_of kvs' (lit ''file_path'') = Some (PStr (lit ''books/u.pdf'')))"
proof -
  let ?r0 = "book_record ''X'' ''Ann'' ''1990'' ''books/b.docx''"
  let ?kvs = "[(lit ''title'', PStr (lit ''T'')), (lit ''author'', PStr (lit ''Bob'')),
               (lit ''year'', PStr (lit ''2001'')), (lit ''file_path'', PStr (lit ''books/a.pdf''))]"
  let ?r2 = "book_record ''T'' ''Cy'' ''2002'' ''books/c.txt''"
  have s: "books_store sample_book = PList ([?r0] @ PDict ?kvs # [?r2])"
    by (simp add: sample_book_def book_record_def)
  have p: "list_all (other_title (lit ''T'')) [?r0]"
    by (simp add: other_title_def book_record_def k_title_def lit_def)
  have k1: "map_of ?kvs k_title = Some (PStr (lit ''T''))"
    by (simp add: k_title_def)
  have k2: "map_of ?kvs k_author = Some (PStr (lit ''Bob''))"
    by (simp add: k_author_def lit_def)
  have k3: "map_of ?kvs k_year = Some (PStr (lit ''2001''))"
    by (simp add: k_year_def lit_def)
  have k4: "map_of ?kvs k_file_path = Some (PStr (lit ''books/a.pdf''))"
    by (simp add: k_file_path_def lit_def)
  have sp: "\<not> list_all isspace (lit '' U '')" "strip (lit '' U '') = lit ''U''"
    "list_all isspace []" "list_all isspace (lit ''  '')"
    "\<not> list_all isspace (lit ''books/u.pdf'')" "strip (lit ''books/u.pdf'') = lit ''books/u.pdf''"
    by (simp_all add: strip_def isspace_def lit_def)
  from edit_book_keeps_blank_fields [OF s p k1 k2 k3 k4,
      of "lit '' U ''" "[]" "lit ''  ''" "lit ''books/u.pdf''"]
  obtain kvs' where
    e: "edit_book (lit ''T'') (lit '' U '') [] (lit ''  '') (lit ''books/u.pdf'') sample_book =
           (None, print (lit ''Book details updated successfully!'')
                    (sample_book\<lparr>books_store := PList ([?r0] @ PDict kvs' # [?r2])\<rparr>))"
    and f: "map fst kvs' = map fst ?kvs"
    and m: "map_of kvs' =
             (map_of ?kvs)
               (k_title \<mapsto> if list_all isspace (lit '' U '') then PStr (lit ''T'') else PStr (strip (lit '' U '')),
                k_author \<mapsto> if list_all isspace [] then PStr (lit ''Bob'') else PStr (strip []),
                k_year \<mapsto> if list_all isspace (lit ''  '') then PStr (lit ''2001'') else PStr (strip (lit ''  '')),
                k_file_path \<mapsto> if list_all isspace (lit ''books/u.pdf'') then PStr (lit ''books/a.pdf'')
                                else PStr (strip (lit ''books/u.pdf'')))"
    by blast
  have m': "map_of kvs' =
             (map_of ?kvs)
               (k_title \<mapsto> PStr (lit ''U''), k_author \<mapsto> PStr (lit ''Bob''),
                k_year \<mapsto> PStr (lit ''2001''), k_file_path \<mapsto> PStr (lit ''books/u.pdf''))"
    using m sp by simp
  have "map_of kvs' (lit ''title'') = Some (PStr (lit ''U''))"
    "map_of kvs' (lit ''author'') = Some (PStr (lit ''Bob''))"
    "map_of kvs' (lit ''year'') = Some (PStr (lit ''2001''))"
    "map_of kvs' (lit ''file_path'') = Some (PStr (lit ''books/u.pdf''))"
    unfolding m' by (simp_all add: k_title_def k_author_def k_year_def k_file_path_def lit_def)
  with e f s p show ?thesis by auto
qed

section \<open>read_book: text extraction\<close>

lemma extract_pages_closed:
  assumes "\<forall>p\<in>set pages. no_text_layer p \<longrightarrow> (\<exists>text. image_to_string E (page_image p) = Inr text)"
  shows "extract_pages E pages extracted ocr =
           Inr (extracted @ concat (map (page_text E) pages),
                ocr @ map page_image (filter no_text_layer pages))"
  using assms
proof (induction pages arbitrary: extracted ocr)
  case Nil
  then show ?case by simp
next
  case (Cons p pages)
  show ?case
  proof (cases "no_text_layer p")
    case True
    then obtain ans where t: "image_to_string E (page_image p) = Inr ans"
      using Cons.prems by auto
    have "extract_pages E (p # pages) extracted ocr =
            extract_pages E pages (extracted @ ans) (ocr @ [page_image p])"
      using True t by (simp add: no_text_layer_def page_image_def Let_def)
    also have "\<dots> = Inr ((extracted @ ans) @ concat (map (page_text E) pages),
                        (ocr @ [page_image p]) @ map page_image (filter no_text_layer pages))"
      using Cons.prems by (intro Cons.IH) simp
    finally show ?thesis
      using True by (simp add: page_text_def [of E p] t)
  next
    case False
    have "extract_pages E (p # pages) extracted ocr =
            extract_pages E pages (extracted @ get_text p) ocr"
      using False by (simp add: no_text_layer_def Let_def)
    also have "\<dots> = Inr ((extracted @ get_text p) @ concat (map (page_text E) pages),
                        ocr @ map page_image (filter no_text_layer pages))"
      using Cons.prems by (intro Cons.IH) simp
    finally show ?thesis
      using False by (simp add: page_text_def [of E p])
  qed
qed

text \<open>
  C2. The page loop of the PDF branch, when the OCR engine answers for every page it is asked
  about: the extracted text is the concatenation, in page order, of one text per page, which
  is the engine's answer for the page's image when the page's text layer is empty after
  stripping, and the text layer itself otherwise; and the images handed to the engine are
  those of exactly the pages with an empty text layer, in page order.
\<close>

theorem ocr_fallback:
  assumes "\<forall>p\<in>set pages. no_text_layer p \<longrightarrow> (\<exists>text. image_to_string E (page_image p) = Inr text)"
  shows "extract_pages E pages [] [] =
           Inr (concat (map (\<lambda>p. if strip (get_text p) = []
                                  then (case image_to_string E (page_image p) of
                                          Inl e \<Rightarrow> [] | Inr text \<Rightarrow> text)
                                  else get_text p) pages),
                map page_image (filter (\<lambda>p. strip (get_text p) = []) pages))"
proof -
  have "page_text E = (\<lambda>p. if strip (get_text p) = []
                             then (case image_to_string E (page_image p) of
                                     Inl e \<Rightarrow> [] | Inr text \<Rightarrow> text)
                             else get_text p)"
    by (simp add: fun_eq_iff page_text_def no_text_layer_def)
  moreover have "no_text_layer = (\<lambda>p. strip (get_text p) = [])"
    by (simp add: fun_eq_iff no_text_layer_def)
  ultimately show ?thesis
    using extract_pages_closed [OF assms, of "[]" "[]"] by simp
qed

theorem ocr_fallback_witness:
  "fitz_open sample_env (lit ''books/a.pdf'') =
     Inr [\<lparr>get_text = lit ''Page one. '', get_pixmap = \<lparr>width = 1, height = 1, samples = [0, 0, 0]\<rparr>\<rparr>,
          \<lparr>get_text = lit ''  '', get_pixmap = \<lparr>width = 1, height = 1, samples = [9, 9, 9]\<rparr>\<rparr>]
   \<and> extract_pages sample_env
        [\<lparr>get_text = lit ''Page one. '', get_pixmap = \<lparr>width = 1, height = 1, samples = [0, 0, 0]\<rparr>\<rparr>,
         \<lparr>get_text = lit ''  '', get_pixmap = \<lparr>width = 1, height = 1, samples = [9, 9, 9]\<rparr>\<rparr>] [] [] =
       Inr (lit ''Page one. Scanned.'', [Image (lit ''RGB'') (1, 1) [9, 9, 9]])"
proof -
  let ?p1 = "\<lparr>get_text = lit ''Page one. '', get_pixmap = \<lparr>width = 1, height = 1, samples = [0, 0, 0]\<rparr>\<rparr>"
  let ?p2 = "\<lparr>get_text = lit ''  '', get_pixmap = \<lparr>width = 1, height = 1, samples = [9, 9, 9]\<rparr>\<rparr>"
  have o: "\<And>img. image_to_string sample_env img = Inr (lit ''Scanned.'')"
    by (simp add: sample_env_def)
  have h: "\<forall>p\<in>set [?p1, ?p2]. no_text_layer p \<longrightarrow> (\<exists>text. image_to_string sample_env (page_image p) = Inr text)"
    by (simp add: o)
  have s: "strip (lit ''Page one. '') \<noteq> []" "strip (lit ''  '') = []"
    by (simp_all add: strip_def isspace_def lit_def)
  have f: "fitz_open sample_env (lit ''books/a.pdf'') = Inr [?p1, ?p2]"
    by (simp add: sample_env_def)
  have "extract_pages sample_env [?p1, ?p2] [] [] =
          Inr (lit ''Page one. Scanned.'', [Image (lit ''RGB'') (1, 1) [9, 9, 9]])"
    using ocr_fallback [OF h] s o
    by (simp add: page_image_def Image_frombytes_def lit_def)
  with f show ?thesis by simp
qed






section \<open>What the decoder makes of the encoder's text\<close>


lemma hexval_hexdigit: "d < 16 \<Longrightarrow> hexval (hexdigit d) = Some d"
  by (auto simp: hexval_def hexdigit_def)

lemma hex_split:
  assumes "(n::nat) < 65536"
  shows "((n div 4096 mod 16 * 16 + n div 256 mod 16) * 16 + n div 16 mod 16) * 16 + n mod 16 = n"
proof -
  have 1: "n = n div 16 * 16 + n mod 16" by simp
  have "n div 16 div 16 = n div 256" by (simp add: div_mult2_eq)
  then have 2: "n div 16 = n div 256 * 16 + n div 16 mod 16"
    using div_mult_mod_eq [of "n div 16" 16] by simp
  have "n div 256 div 16 = n div 4096" by (simp add: div_mult2_eq)
  then have 3: "n div 256 = n div 4096 * 16 + n div 256 mod 16"
    using div_mult_mod_eq [of "n div 256" 16] by simp
  have "n div 4096 < 16" using assms by simp
  then have 4: "n div 4096 mod 16 = n div 4096" by simp
  show ?thesis
    unfolding 4 by (simp only: 3 [symmetric] 2 [symmetric] 1 [symmetric])
qed

lemma decode_escape:
  assumes "n < 65536"
  shows "decode_uXXXX (hexdigit (n div 4096 mod 16)) (hexdigit (n div 256 mod 16))
     (hexdigit (n div 16 mod 16)) (hexdigit (n mod 16)) = Some n"
proof -
  have "decode_uXXXX (hexdigit (n div 4096 mod 16)) (hexdigit (n div 256 mod 16))
     (hexdigit (n div 16 mod 16)) (hexdigit (n mod 16))
     = Some (((n div 4096 mod 16 * 16 + n div 256 mod 16) * 16 + n div 16 mod 16) * 16 + n mod 16)"
    unfolding decode_uXXXX_def by (simp only: hexval_hexdigit mod_less_divisor zero_less_numeral option.case)
  then show ?thesis by (simp only: hex_split [OF assms])
qed


lemma scanstring_quote: "scanstring (34 # cs) = Some ([], cs)"
  by simp

lemma scanstring_plain:
  "c \<noteq> 34 \<Longrightarrow> c \<noteq> 92 \<Longrightarrow> \<not> c < 32 \<Longrightarrow> scanstring (c # cs) = cons_char c (scanstring cs)"
  by simp

lemma scanstring_backslash:
  "e \<noteq> 117 \<Longrightarrow> backslash e = Some ch \<Longrightarrow> scanstring (92 # e # cs) = cons_char ch (scanstring cs)"
  by simp

lemma scanstring_pair:
  assumes "decode_uXXXX h1 h2 h3 h4 = Some uni" and "55296 \<le> uni" and "uni \<le> 56319"
    and "decode_uXXXX l1 l2 l3 l4 = Some uni2" and "56320 \<le> uni2" and "uni2 \<le> 57343"
  shows "scanstring (92 # 117 # h1 # h2 # h3 # h4 # 92 # 117 # l1 # l2 # l3 # l4 # cs3) =
           cons_char (65536 + ((uni - 55296) * 1024 + (uni2 - 56320))) (scanstring cs3)"
  by (subst scanstring.simps) (simp add: assms del: scanstring.simps)

lemma scanstring_single:
  assumes "decode_uXXXX h1 h2 h3 h4 = Some uni"
    and "\<not> (55296 \<le> uni \<and> uni \<le> 56319)
         \<or> (\<forall>l1 l2 l3 l4 cs3 uni2. cs2 = 92 # 117 # l1 # l2 # l3 # l4 # cs3
                \<longrightarrow> decode_uXXXX l1 l2 l3 l4 = Some uni2 \<longrightarrow> \<not> (56320 \<le> uni2 \<and> uni2 \<le> 57343))"
  shows "scanstring (92 # 117 # h1 # h2 # h3 # h4 # cs2) = cons_char uni (scanstring cs2)"
  using assms
  by (subst scanstring.simps)
     (auto simp del: scanstring.simps split: list.splits option.splits)


lemma escape_u_decode:
  assumes "n < 65536" and "escape_u n @ tail = 92 # 117 # l1 # l2 # l3 # l4 # cs3"
  shows "decode_uXXXX l1 l2 l3 l4 = Some n"
  using assms(2) decode_escape [OF assms(1)] by (simp add: escape_u_def)

lemma surrogates_of:
  fixes c :: nat
  assumes "65536 \<le> c" and "c < 1114112"
  shows "55296 + (c - 65536) div 1024 mod 1024 \<le> 56319"
    and "55296 \<le> 55296 + (c - 65536) div 1024 mod 1024"
    and "56320 + (c - 65536) mod 1024 \<le> 57343"
    and "65536 + ((55296 + (c - 65536) div 1024 mod 1024 - 55296) * 1024
                  + (56320 + (c - 65536) mod 1024 - 56320)) = c"
proof -
  have m: "(c - 65536) div 1024 < 1024" using assms by simp
  then have e: "(c - 65536) div 1024 mod 1024 = (c - 65536) div 1024" by simp
  show "55296 + (c - 65536) div 1024 mod 1024 \<le> 56319" using m e by simp
  show "55296 \<le> 55296 + (c - 65536) div 1024 mod 1024" by simp
  have "(c - 65536) mod 1024 < 1024" by simp
  then show "56320 + (c - 65536) mod 1024 \<le> 57343" by simp
  have "(c - 65536) div 1024 * 1024 + (c - 65536) mod 1024 = c - 65536" by simp
  then show "65536 + ((55296 + (c - 65536) div 1024 mod 1024 - 55296) * 1024
                  + (56320 + (c - 65536) mod 1024 - 56320)) = c"
    using assms(1) e by simp
qed

lemma encode_char_head:
  assumes "d < 1114112" and "encode_char d @ tail = 92 # 117 # l1 # l2 # l3 # l4 # cs3"
    and "decode_uXXXX l1 l2 l3 l4 = Some uni2"
  shows "uni2 = d \<or> (55296 \<le> uni2 \<and> uni2 \<le> 56319)"
proof (cases "d < 65536")
  case True
  show ?thesis
  proof (cases "encode_char d = escape_u d")
    case True
    then have "decode_uXXXX l1 l2 l3 l4 = Some d"
      using escape_u_decode [OF \<open>d < 65536\<close>, of tail l1 l2 l3 l4 cs3] assms(2) by simp
    then show ?thesis using assms(3) by simp
  next
    case False
    then have False
      using assms(2) True by (auto simp: encode_char_def split: if_splits)
    then show ?thesis ..
  qed
next
  case False
  let ?hi = "55296 + (d - 65536) div 1024 mod 1024"
  have h: "?hi < 65536" using surrogates_of(1) [of d] False assms(1) by simp
  have "encode_char d @ tail = escape_u ?hi @ (escape_u (56320 + (d - 65536) mod 1024) @ tail)"
    using False by (simp add: encode_char_def)
  then have "decode_uXXXX l1 l2 l3 l4 = Some ?hi"
    using escape_u_decode [OF h, of _ l1 l2 l3 l4 cs3] assms(2) by simp
  then show ?thesis
    using assms(3) surrogates_of(1,2) [of d] False assms(1) by auto
qed


lemma scan_char:
  assumes "c < 1114112"
    and "55296 \<le> c \<and> c \<le> 56319 \<longrightarrow>
         (\<forall>l1 l2 l3 l4 cs3 uni2. tail = 92 # 117 # l1 # l2 # l3 # l4 # cs3
            \<longrightarrow> decode_uXXXX l1 l2 l3 l4 = Some uni2 \<longrightarrow> \<not> (56320 \<le> uni2 \<and> uni2 \<le> 57343))"
  shows "scanstring (encode_char c @ tail) = cons_char c (scanstring tail)"
proof -
  consider (two) "c = 34 \<or> c = 92 \<or> c = 10 \<or> c = 13 \<or> c = 9 \<or> c = 8 \<or> c = 12"
    | (plain) "c \<noteq> 34" "c \<noteq> 92" "32 \<le> c" "c \<le> 126"
    | (basic) "c \<noteq> 10" "c \<noteq> 13" "c \<noteq> 9" "c \<noteq> 8" "c \<noteq> 12" "c < 32 \<or> 126 < c" "c < 65536"
    | (astral) "65536 \<le> c"
    by linarith
  then show ?thesis
  proof cases
    case two
    then show ?thesis
      by (auto simp: encode_char_def backslash_def scanstring_backslash simp del: scanstring.simps)
  next
    case plain
    then have "encode_char c = [c]" by (simp add: encode_char_def)
    then show ?thesis using plain by (simp add: scanstring_plain del: scanstring.simps)
  next
    case basic
    then have e: "encode_char c = escape_u c" by (auto simp: encode_char_def)
    have "scanstring (92 # 117 # hexdigit (c div 4096 mod 16) # hexdigit (c div 256 mod 16)
            # hexdigit (c div 16 mod 16) # hexdigit (c mod 16) # tail) = cons_char c (scanstring tail)"
      using decode_escape [OF basic(7)] assms(2) by (intro scanstring_single) auto
    then show ?thesis by (simp add: e escape_u_def del: scanstring.simps)
  next
    case astral
    let ?hi = "55296 + (c - 65536) div 1024 mod 1024"
    let ?lo = "56320 + (c - 65536) mod 1024"
    note s = surrogates_of [OF astral assms(1)]
    have e: "encode_char c = escape_u ?hi @ escape_u ?lo"
      using astral by (simp add: encode_char_def)
    have hi: "?hi < 65536" using s(1) by simp
    have lo: "?lo < 65536" using s(3) by simp
    have "scanstring (92 # 117 # hexdigit (?hi div 4096 mod 16) # hexdigit (?hi div 256 mod 16)
            # hexdigit (?hi div 16 mod 16) # hexdigit (?hi mod 16)
            # 92 # 117 # hexdigit (?lo div 4096 mod 16) # hexdigit (?lo div 256 mod 16)
            # hexdigit (?lo div 16 mod 16) # hexdigit (?lo mod 16) # tail)
          = cons_char (65536 + ((?hi - 55296) * 1024 + (?lo - 56320))) (scanstring tail)"
      using decode_escape [OF hi] s(2) s(1) decode_escape [OF lo] _ s(3)
      by (rule scanstring_pair) simp
    then show ?thesis
      unfolding s(4) by (simp add: e escape_u_def del: scanstring.simps)
  qed
qed

lemma scanstring_encoded:
  "text_ok s \<Longrightarrow> scanstring (concat (map encode_char s) @ 34 # rest) = Some (s, rest)"
proof (induction s rule: text_ok.induct)
  case 1
  show ?case by simp
next
  case (2 c)
  then have "scanstring (encode_char c @ 34 # rest) = cons_char c (scanstring (34 # rest))"
    by (intro scan_char) auto
  then show ?case by (simp add: cons_char_def scanstring_quote del: scanstring.simps)
next
  case (3 c d s)
  let ?tail = "encode_char d @ (concat (map encode_char s) @ 34 # rest)"
  have "scanstring (encode_char c @ ?tail) = cons_char c (scanstring ?tail)"
  proof (rule scan_char)
    show "c < 1114112" using 3 by simp
    show "55296 \<le> c \<and> c \<le> 56319 \<longrightarrow>
         (\<forall>l1 l2 l3 l4 cs3 uni2. ?tail = 92 # 117 # l1 # l2 # l3 # l4 # cs3
            \<longrightarrow> decode_uXXXX l1 l2 l3 l4 = Some uni2 \<longrightarrow> \<not> (56320 \<le> uni2 \<and> uni2 \<le> 57343))"
    proof (intro impI allI)
      fix l1 l2 l3 l4 cs3 uni2
      assume h: "55296 \<le> c \<and> c \<le> 56319"
        and t: "?tail = 92 # 117 # l1 # l2 # l3 # l4 # cs3"
        and u: "decode_uXXXX l1 l2 l3 l4 = Some uni2"
      have d: "d < 1114112" using 3 by (cases s) simp_all
      have "uni2 = d \<or> (55296 \<le> uni2 \<and> uni2 \<le> 56319)"
        using d t u by (rule encode_char_head)
      moreover have "\<not> (56320 \<le> d \<and> d \<le> 57343)" using 3 h by simp
      ultimately show "\<not> (56320 \<le> uni2 \<and> uni2 \<le> 57343)" by auto
    qed
  qed
  moreover have "scanstring ?tail = Some (d # s, rest)"
    using 3 by simp
  ultimately show ?case by (simp add: cons_char_def del: scanstring.simps)
qed

lemma scan_once_string:
  "text_ok s \<Longrightarrow> scan_once (Suc n) depth lim (encode_basestring_ascii s @ rest) = Inr (PStr s, rest)"
  using scanstring_encoded [of s rest]
  by (simp add: encode_basestring_ascii_def del: scanstring.simps)



lemma skip_ws_spaces: "skip_ws (replicate n 32 @ r) = skip_ws r"
  by (induction n) (simp_all add: skip_ws_def json_ws_def)

lemma skip_ws_indent: "skip_ws (newline_indent k @ r) = skip_ws r"
  using skip_ws_spaces [of "4 * k" r] by (simp add: newline_indent_def skip_ws_def json_ws_def)

lemma skip_ws_stop: "\<not> json_ws x \<Longrightarrow> skip_ws (x # r) = x # r"
  by (simp add: skip_ws_def)

lemma not_ws: "\<not> json_ws 34" "\<not> json_ws 58" "\<not> json_ws 44" "\<not> json_ws 125" "\<not> json_ws 93"
  "\<not> json_ws 123" "\<not> json_ws 91"
  by (simp_all add: json_ws_def)

lemma encoded_head: "encode_basestring_ascii s @ r = 34 # (concat (map encode_char s) @ 34 # r)"
  by (simp add: encode_basestring_ascii_def)

lemma dict_set_fresh: "k \<notin> fst ` set acc \<Longrightarrow> dict_set acc k v = acc @ [(k, v)]"
  by (induction acc) auto

text \<open>One member: key, colon, value, and then what follows it.\<close>

lemma parse_member:
  assumes "text_ok k" and "text_ok v" and "skip_ws tail = c # s5"
  shows "parse_object (Suc (Suc n)) depth lim (item level (k, PStr v) @ tail) acc =
           (if c = 125 then Inr (PDict (dict_set acc k (PStr v)), s5)
            else if c = 44 then parse_object (Suc n) depth lim (skip_ws s5) (dict_set acc k (PStr v))
            else Inl JSONDecodeError)"
proof -
  have 1: "item level (k, PStr v) @ tail =
           34 # (concat (map encode_char k) @ 34 # (58 # 32 # (encode_basestring_ascii v @ tail)))"
    by (simp add: item_def encode_basestring_ascii_def lit_def)
  have 2: "scanstring (concat (map encode_char k) @ 34 # (58 # 32 # (encode_basestring_ascii v @ tail)))
           = Some (k, 58 # 32 # (encode_basestring_ascii v @ tail))"
    using assms(1) by (rule scanstring_encoded)
  have 3: "skip_ws (58 # 32 # (encode_basestring_ascii v @ tail)) = 58 # 32 # (encode_basestring_ascii v @ tail)"
    by (simp add: skip_ws_stop not_ws)
  have 4: "skip_ws (32 # (encode_basestring_ascii v @ tail)) = encode_basestring_ascii v @ tail"
    by (simp add: skip_ws_def json_ws_def encode_basestring_ascii_def)
  have 5: "scan_once (Suc n) depth lim (encode_basestring_ascii v @ tail) = Inr (PStr v, tail)"
    using assms(2) by (rule scan_once_string)
  show ?thesis
    unfolding 1
    by (subst parse_object.simps) (simp add: 2 3 4 5 assms(3) del: scanstring.simps scan_once.simps parse_object.simps)
qed


lemma text_valueE:
  assumes "text_value v" obtains s where "v = PStr s" "text_ok s"
  using assms by (cases v) (auto simp: text_value_def)

lemma item_head: "\<exists>r. item level kv @ t = 34 # r"
  by (simp add: item_def encode_basestring_ascii_def)

lemma join_items_head: "\<exists>r. join sep (map (item level) (kv # kvs)) @ t = 34 # r"
  using item_head [of level kv] by (cases kvs) (auto simp: item_def encode_basestring_ascii_def)

lemma parse_members:
  assumes "kvs \<noteq> []"
    and "list_all (\<lambda>kv. text_ok (fst kv) \<and> text_value (snd kv)) kvs"
    and "distinct (map fst kvs)"
    and "fst ` set acc \<inter> fst ` set kvs = {}"
    and "length kvs < n"
  shows "parse_object n depth lim (join (44 # newline_indent level) (map (item level) kvs)
                          @ newline_indent level' @ 125 # rest) acc
         = Inr (PDict (acc @ kvs), rest)"
  using assms
proof (induction kvs arbitrary: acc n)
  case Nil
  then show ?case by simp
next
  case (Cons kv kvs)
  obtain k x where kv: "kv = (k, x)" by (cases kv)
  from Cons.prems(2) kv obtain v where x: "x = PStr v" and ok: "text_ok k" "text_ok v"
    by (auto elim: text_valueE)
  from Cons.prems(5) obtain m where n: "n = Suc (Suc m)" and m: "length kvs \<le> m"
    by (cases n; cases "n - 1") auto
  have fresh: "k \<notin> fst ` set acc"
    using Cons.prems(4) kv by auto
  show ?case
  proof (cases kvs)
    case Nil
    have t: "skip_ws (newline_indent level' @ 125 # rest) = 125 # rest"
      by (simp add: skip_ws_indent skip_ws_stop not_ws)
    show ?thesis
      using parse_member [OF ok t, of m depth lim level acc] fresh
      by (simp add: Nil kv x n dict_set_fresh del: parse_object.simps)
  next
    case (Cons kv2 kvs2)
    let ?more = "join (44 # newline_indent level) (map (item level) kvs)
                   @ newline_indent level' @ 125 # rest"
    have j: "join (44 # newline_indent level) (map (item level) (kv # kvs))
               @ newline_indent level' @ 125 # rest
             = item level (k, PStr v) @ (44 # (newline_indent level @ ?more))"
      by (simp add: Cons kv x)
    have t: "skip_ws (44 # (newline_indent level @ ?more)) = 44 # (newline_indent level @ ?more)"
      by (simp add: skip_ws_stop not_ws)
    obtain r where r: "?more = 34 # r"
      using join_items_head [of "44 # newline_indent level" level kv2 kvs2
          "newline_indent level' @ 125 # rest"] Cons by auto
    have s: "skip_ws (newline_indent level @ ?more) = ?more"
      by (simp add: skip_ws_indent r skip_ws_stop not_ws)
    have "parse_object (Suc m) depth lim ?more (acc @ [(k, PStr v)]) = Inr (PDict ((acc @ [(k, PStr v)]) @ kvs), rest)"
    proof (rule Cons.IH)
      show "kvs \<noteq> []" using Cons by simp
      show "list_all (\<lambda>kv. text_ok (fst kv) \<and> text_value (snd kv)) kvs" using Cons.prems(2) by simp
      show "distinct (map fst kvs)" using Cons.prems(3) by simp
      show "fst ` set (acc @ [(k, PStr v)]) \<inter> fst ` set kvs = {}"
        using Cons.prems(3,4) kv by auto
      show "length kvs < Suc m" using m by simp
    qed
    then show ?thesis
      unfolding j n using parse_member [OF ok t, of m depth lim level acc] fresh
      by (simp add: s kv x dict_set_fresh del: parse_object.simps)
  qed
qed


lemma item_fun: "(\<lambda>kv. encode_basestring_ascii (fst kv) @ lit '': '' @ iterencode level (snd kv)) = item level"
  by (simp add: fun_eq_iff item_def)

lemma scan_once_record:
  assumes "text_record (PDict kvs)" and "length kvs < n"
  shows "scan_once (Suc n) (Suc depth) lim (iterencode level (PDict kvs) @ rest) = Inr (PDict kvs, rest)"
proof (cases kvs)
  case Nil
  then show ?thesis by (simp add: lit_def skip_ws_stop not_ws)
next
  case (Cons kv kvs')
  let ?members = "join (44 # newline_indent (Suc level)) (map (item (Suc level)) kvs)
                    @ newline_indent level @ 125 # rest"
  have e: "iterencode level (PDict kvs) @ rest = 123 # (newline_indent (Suc level) @ ?members)"
    by (simp add: Cons item_fun)
  obtain r where r: "?members = 34 # r"
    using join_items_head [of "44 # newline_indent (Suc level)" "Suc level" kv kvs'
        "newline_indent level @ 125 # rest"] Cons by auto
  have s: "skip_ws (newline_indent (Suc level) @ ?members) = ?members"
    by (simp add: skip_ws_indent r skip_ws_stop not_ws)
  have p: "parse_object n depth lim ?members [] = Inr (PDict ([] @ kvs), rest)"
    using assms by (intro parse_members) (simp_all add: text_record_def Cons)
  have h: "?members \<noteq> [] \<and> hd ?members \<noteq> 125" using r by simp
  show ?thesis
    unfolding e
    by (subst scan_once.simps) (use h p in \<open>simp add: s del: scan_once.simps parse_object.simps\<close>)
qed

lemma dict_head: "\<exists>t. iterencode level (PDict kvs) @ rest = 123 # t"
  by (cases kvs) (simp_all add: lit_def)

lemma record_head: "text_record r \<Longrightarrow> \<exists>t. iterencode level r @ rest = 123 # t"
  using dict_head by (cases r) (simp_all add: text_record_def del: iterencode.simps)

lemma join_records_head:
  "list_all text_record (r # rs) \<Longrightarrow> \<exists>t. join sep (map (iterencode level) (r # rs)) @ rest = 123 # t"
  using record_head [of r level] by (cases rs) auto

lemma parse_elements:
  assumes "recs \<noteq> []" and "list_all text_record recs"
    and "\<forall>kvs. PDict kvs \<in> set recs \<longrightarrow> length kvs \<le> K"
    and "length recs + K + 1 < n"
  shows "parse_array n (Suc depth) lim (join (44 # newline_indent level) (map (iterencode level) recs)
                         @ newline_indent level' @ 93 # rest) acc
         = Inr (PList (acc @ recs), rest)"
  using assms
proof (induction recs arbitrary: acc n)
  case Nil
  then show ?case by simp
next
  case (Cons r recs)
  from Cons.prems(2) obtain kvs where r: "r = PDict kvs" and tr: "text_record (PDict kvs)"
    by (cases r) (auto simp: text_record_def)
  have k: "length kvs \<le> K" using Cons.prems(3) r by simp
  from Cons.prems(4) obtain m where n: "n = Suc (Suc m)" and m: "length recs + K + 1 \<le> m"
    by (cases n; cases "n - 1") auto
  have one: "\<And>tail. scan_once (Suc m) (Suc depth) lim (iterencode level (PDict kvs) @ tail) = Inr (PDict kvs, tail)"
    using tr k m by (intro scan_once_record) auto
  show ?case
  proof (cases recs)
    case Nil
    have t: "skip_ws (newline_indent level' @ 93 # rest) = 93 # rest"
      by (simp add: skip_ws_indent skip_ws_stop not_ws)
    show ?thesis
      unfolding n
      by (subst parse_array.simps)
         (simp add: Nil r one t del: scan_once.simps parse_array.simps iterencode.simps)
  next
    case (Cons r2 recs2)
    let ?more = "join (44 # newline_indent level) (map (iterencode level) recs)
                   @ newline_indent level' @ 93 # rest"
    have j: "join (44 # newline_indent level) (map (iterencode level) (r # recs))
               @ newline_indent level' @ 93 # rest
             = iterencode level (PDict kvs) @ (44 # (newline_indent level @ ?more))"
      by (simp add: Cons r del: iterencode.simps)
    have t: "skip_ws (44 # (newline_indent level @ ?more)) = 44 # (newline_indent level @ ?more)"
      by (simp add: skip_ws_stop not_ws)
    obtain x where x: "?more = 123 # x"
      using join_records_head [of r2 recs2 "44 # newline_indent level" level
          "newline_indent level' @ 93 # rest"] Cons Cons.prems(2) by auto
    have s: "skip_ws (newline_indent level @ ?more) = ?more"
      by (simp add: skip_ws_indent x skip_ws_stop not_ws)
    have "parse_array (Suc m) (Suc depth) lim ?more (acc @ [r]) = Inr (PList ((acc @ [r]) @ recs), rest)"
    proof (rule Cons.IH)
      show "recs \<noteq> []" using Cons by simp
      show "list_all text_record recs" using Cons.prems(2) by simp
      show "\<forall>kvs. PDict kvs \<in> set recs \<longrightarrow> length kvs \<le> K" using Cons.prems(3) by simp
      show "length recs + K + 1 < Suc m" using m by simp
    qed
    then show ?thesis
      unfolding j n
      by (subst parse_array.simps)
         (simp add: r one t s del: scan_once.simps parse_array.simps iterencode.simps)
  qed
qed


lemma length_join_member: "x \<in> set xs \<Longrightarrow> length x \<le> length (join sep xs)"
  by (induction sep xs rule: join.induct) auto

lemma length_join_count: "\<forall>x\<in>set xs. x \<noteq> [] \<Longrightarrow> length xs \<le> length (join sep xs)"
proof (induction sep xs rule: join.induct)
  case (1 sep)
  then show ?case by simp
next
  case (2 sep x)
  then show ?case by (cases x) simp_all
next
  case (3 sep x y ys)
  then have "x \<noteq> []" by simp
  then have "1 \<le> length x" by (cases x) simp_all
  moreover have "length (y # ys) \<le> length (join sep (y # ys))" using 3 by simp
  ultimately show ?case by simp
qed

lemma item_nonempty: "item level kv \<noteq> []"
  by (simp add: item_def encode_basestring_ascii_def)

lemma dict_size_le: "length kvs \<le> length (iterencode level (PDict kvs))"
proof (cases kvs)
  case Nil
  then show ?thesis by simp
next
  case (Cons kv kvs')
  have "length kvs \<le> length (join (44 # newline_indent (Suc level)) (map (item (Suc level)) kvs))"
    using length_join_count [of "map (item (Suc level)) kvs"] item_nonempty by simp
  then show ?thesis by (simp add: Cons item_fun)
qed

lemma json_roundtrip_records:
  assumes "list_all text_record recs" and "2 \<le> max_depth E"
  shows "json_loads E (json_dumps (PList recs)) = Inr (PList recs)"
proof (cases recs)
  case Nil
  obtain depth where d: "max_depth E = Suc depth"
    using assms(2) by (cases "max_depth E") auto
  have "scan_once (Suc n) (Suc depth) lim [91, 93] = Inr (PList [], [])" for n lim
    by (simp add: skip_ws_stop not_ws)
  then have a: "scan_once (Suc 4) (Suc depth) (max_str_digits E) [91, 93] = Inr (PList [], [])" .
  have b: "2 * length (json_dumps (PList [])) + 1 = Suc 4"
    by (simp add: json_dumps_def lit_def)
  have c: "skip_ws (json_dumps (PList [])) = [91, 93]"
    by (simp add: json_dumps_def lit_def skip_ws_stop not_ws)
  show ?thesis
    unfolding json_loads_def Nil b c d a by (simp add: skip_ws_def)
next
  case (Cons r rs)
  obtain depth where d: "max_depth E = Suc (Suc depth)"
    using assms(2) by (cases "max_depth E"; cases "max_depth E - 1") auto
  let ?lim = "max_str_digits E"
  let ?J = "join (44 # newline_indent (Suc 0)) (map (iterencode (Suc 0)) recs)"
  let ?body = "?J @ newline_indent 0 @ 93 # []"
  have e: "json_dumps (PList recs) = 91 # (newline_indent (Suc 0) @ ?body)"
    by (simp add: json_dumps_def Cons del: iterencode.simps(1-5,8,9))
  have len: "length (json_dumps (PList recs)) = length ?J + 8"
    unfolding e by (simp add: newline_indent_def del: iterencode.simps)
  obtain x where x: "?body = 123 # x"
    using join_records_head [of r rs "44 # newline_indent (Suc 0)" "Suc 0" "newline_indent 0 @ 93 # []"]
      assms(1) Cons
    by auto
  have s: "skip_ws (newline_indent (Suc 0) @ ?body) = ?body"
    by (simp add: skip_ws_indent x skip_ws_stop not_ws)
  have nonempty: "\<forall>t\<in>set (map (iterencode (Suc 0)) recs). t \<noteq> []"
  proof
    fix t assume "t \<in> set (map (iterencode (Suc 0)) recs)"
    then obtain q where "q \<in> set recs" "t = iterencode (Suc 0) q" by auto
    moreover then have "text_record q" using assms(1) by (simp add: list_all_iff)
    ultimately show "t \<noteq> []" using record_head [of q "Suc 0" "[]"] by auto
  qed
  have count: "length recs \<le> length ?J"
    using length_join_count [OF nonempty, of "44 # newline_indent (Suc 0)"] by simp
  have sizes: "\<forall>kvs. PDict kvs \<in> set recs \<longrightarrow> length kvs \<le> length ?J"
  proof (intro allI impI)
    fix kvs assume "PDict kvs \<in> set recs"
    then have "iterencode (Suc 0) (PDict kvs) \<in> set (map (iterencode (Suc 0)) recs)" by (simp del: iterencode.simps)
    then have "length (iterencode (Suc 0) (PDict kvs)) \<le> length ?J" by (rule length_join_member)
    then show "length kvs \<le> length ?J" using dict_size_le [of kvs "Suc 0"] by simp
  qed
  have p: "parse_array (2 * (length ?J + 8)) (Suc depth) ?lim ?body [] = Inr (PList ([] @ recs), [])"
  proof (rule parse_elements [OF _ assms(1) sizes])
    show "recs \<noteq> []" by (simp add: Cons)
    have "a + b + 1 < 2 * (b + 8)" if "a \<le> b" for a b :: nat
      using that by simp
    then show "length recs + length ?J + 1 < 2 * (length ?J + 8)" using count by blast
  qed
  have h: "?body \<noteq> [] \<and> hd ?body \<noteq> 93" using x by simp
  have "scan_once (Suc (2 * (length ?J + 8))) (Suc (Suc depth)) ?lim (91 # (newline_indent (Suc 0) @ ?body))
          = Inr (PList recs, [])"
    by (subst scan_once.simps) (use h p in \<open>simp add: s del: scan_once.simps parse_array.simps\<close>)
  then show ?thesis
    unfolding json_loads_def len d unfolding e
    by (simp add: skip_ws_stop not_ws skip_ws_def [of "[]"] del: scan_once.simps)
qed

section \<open>save_books, then load_books\<close>

lemma text_ok_iff: "text_ok s \<longleftrightarrow> is_str s \<and> no_split_pair s"
  by (induction s rule: text_ok.induct) (auto simp: is_str_def)

lemma fieldnames_text_ok: "k \<in> set fieldnames \<Longrightarrow> text_ok k"
  by (auto simp: fieldnames_def k_title_def k_author_def k_year_def k_file_path_def lit_def)

lemma flat_text_record:
  assumes "flat_record r" and "unsplit_record r"
  shows "text_record r"
proof -
  from assms(1) obtain kvs where r: "r = PDict kvs" by (cases r) (auto simp: flat_record_def)
  have d: "distinct (map fst kvs)" and k: "set (map fst kvs) = set fieldnames"
    and v: "list_all (\<lambda>kv. case snd kv of PStr s \<Rightarrow> is_str s | _ \<Rightarrow> False) kvs"
    using assms(1) r by (simp_all add: flat_record_def)
  have u: "list_all (\<lambda>kv. case snd kv of PStr s \<Rightarrow> no_split_pair s | _ \<Rightarrow> False) kvs"
    using assms(2) r by (simp add: unsplit_record_def)
  have "text_ok (fst kv) \<and> text_value (snd kv)" if "kv \<in> set kvs" for kv
  proof
    have "fst kv \<in> set fieldnames" using that k by force
    then show "text_ok (fst kv)" by (rule fieldnames_text_ok)
    show "text_value (snd kv)"
      using v u that by (cases "snd kv") (auto simp: list_all_iff text_value_def text_ok_iff)
  qed
  then show ?thesis using d r by (simp add: text_record_def list_all_iff)
qed

lemma load_after_save:
  assumes "json_loads E (json_dumps (books_store self)) = Inr (books_store self)"
    and "open_write E (filename self) = None"
  shows "fst (save_books E self) = None
       \<and> fst (load_books E (snd (save_books E self))) = None
       \<and> books_store (snd (load_books E (snd (save_books E self)))) = books_store self"
  using assms
  by (simp add: save_books_def load_books_def json_load_def read_text_def print_def write_file_def)

text \<open>
  C1, as the claim states it, fails: the encoder writes a character beyond the basic plane as
  the escapes of a surrogate pair, and writes a high surrogate followed by a low surrogate,
  which are two characters of a Python string, the same way; the decoder reads the pair as
  one character. A store whose only record has the two-character title \<open>U+D83D U+DE00\<close> is
  saved, and loaded with the one-character title \<open>U+1F600\<close>.
\<close>

theorem save_load_roundtrip_counterexample:
  "list_all flat_record
     [PDict [(lit ''title'', PStr [55357, 56832]), (lit ''author'', PStr (lit ''Ann'')),
             (lit ''year'', PStr (lit ''1990'')), (lit ''file_path'', PStr (lit ''books/a.pdf''))]]
   \<and> books_store split_pair_book =
       PList [PDict [(lit ''title'', PStr [55357, 56832]), (lit ''author'', PStr (lit ''Ann'')),
                     (lit ''year'', PStr (lit ''1990'')), (lit ''file_path'', PStr (lit ''books/a.pdf''))]]
   \<and> fst (save_books sample_env split_pair_book) = None
   \<and> fst (load_books sample_env (snd (save_books sample_env split_pair_book))) = None
   \<and> books_store (snd (load_books sample_env (snd (save_books sample_env split_pair_book)))) =
       PList [PDict [(lit ''title'', PStr [128512]), (lit ''author'', PStr (lit ''Ann'')),
                     (lit ''year'', PStr (lit ''1990'')), (lit ''file_path'', PStr (lit ''books/a.pdf''))]]
   \<and> books_store (snd (load_books sample_env (snd (save_books sample_env split_pair_book))))
       \<noteq> books_store split_pair_book"
proof -
  let ?bad = "PList [PDict [(lit ''title'', PStr [55357, 56832]), (lit ''author'', PStr (lit ''Ann'')),
                     (lit ''year'', PStr (lit ''1990'')), (lit ''file_path'', PStr (lit ''books/a.pdf''))]]"
  let ?got = "PList [PDict [(lit ''title'', PStr [128512]), (lit ''author'', PStr (lit ''Ann'')),
                     (lit ''year'', PStr (lit ''1990'')), (lit ''file_path'', PStr (lit ''books/a.pdf''))]]"
  have f: "list_all flat_record
     [PDict [(lit ''title'', PStr [55357, 56832]), (lit ''author'', PStr (lit ''Ann'')),
             (lit ''year'', PStr (lit ''1990'')), (lit ''file_path'', PStr (lit ''books/a.pdf''))]]"
    by (simp add: flat_record_def fieldnames_def k_title_def k_author_def k_year_def k_file_path_def
          is_str_def lit_def)
  have s: "books_store split_pair_book = ?bad"
    by (simp add: split_pair_book_def)
  have o: "open_write sample_env (filename split_pair_book) = None"
    by (simp add: open_write_def sample_env_def split_pair_book_def empty_book_def lit_def)
  have "concat (map encode_char [55357, 56832]) = concat (map encode_char [128512])"
    by (simp add: encode_char_def escape_u_def hexdigit_def)
  then have d: "json_dumps ?bad = json_dumps ?got"
    by (simp add: json_dumps_def encode_basestring_ascii_def)
  have "list_all text_record
          [PDict [(lit ''title'', PStr [128512]), (lit ''author'', PStr (lit ''Ann'')),
                  (lit ''year'', PStr (lit ''1990'')), (lit ''file_path'', PStr (lit ''books/a.pdf''))]]"
    by (simp add: text_record_def text_value_def lit_def)
  moreover have "2 \<le> max_depth sample_env" by (simp add: sample_env_def)
  ultimately have j: "json_loads sample_env (json_dumps ?bad) = Inr ?got"
    unfolding d by (rule json_roundtrip_records)
  have l: "fst (save_books sample_env split_pair_book) = None
       \<and> fst (load_books sample_env (snd (save_books sample_env split_pair_book))) = None
       \<and> books_store (snd (load_books sample_env (snd (save_books sample_env split_pair_book)))) = ?got"
    using j o
    by (simp add: save_books_def load_books_def json_load_def read_text_def print_def write_file_def s)
  have n: "?got \<noteq> ?bad" by simp
  show ?thesis
    using f s l n by simp
qed

text \<open>
  C1, amended. For a store that is a list of flat records (each a dictionary of the four
  fields \<open>title\<close>, \<open>author\<close>, \<open>year\<close> and \<open>file_path\<close> with string values) in none of whose
  strings a high surrogate is directly followed by a low surrogate: when the file opens for
  writing and the interpreter lets the decoder nest two containers, \<open>save_books\<close> and then
  \<open>load_books\<close> both return without an exception and the store is the original one, with the
  same records in the same order.
\<close>

theorem save_load_roundtrip:
  assumes "books_store self = PList recs"
    and "list_all flat_record recs" and "list_all unsplit_record recs"
    and "open_write E (filename self) = None" and "2 \<le> max_depth E"
  shows "fst (save_books E self) = None
       \<and> fst (load_books E (snd (save_books E self))) = None
       \<and> books_store (snd (load_books E (snd (save_books E self)))) = PList recs"
proof -
  have "list_all text_record recs"
    using assms(2,3) by (simp add: list_all_iff flat_text_record)
  then have "json_loads E (json_dumps (PList recs)) = Inr (PList recs)"
    using assms(5) by (rule json_roundtrip_records)
  then show ?thesis
    using load_after_save [of E self] assms(1,4) by simp
qed

theorem save_load_roundtrip_witness:
  "books_store sample_book =
     PList [book_record ''X'' ''Ann'' ''1990'' ''books/b.docx'',
            book_record ''T'' ''Bob'' ''2001'' ''books/a.pdf'',
            book_record ''T'' ''Cy'' ''2002'' ''books/c.txt'']
   \<and> open_write sample_env (filename sample_book) = None
   \<and> fst (save_books sample_env sample_book) = None
   \<and> fst (load_books sample_env (snd (save_books sample_env sample_book))) = None
   \<and> books_store (snd (load_books sample_env (snd (save_books sample_env sample_book)))) =
       PList [book_record ''X'' ''Ann'' ''1990'' ''books/b.docx'',
              book_record ''T'' ''Bob'' ''2001'' ''books/a.pdf'',
              book_record ''T'' ''Cy'' ''2002'' ''books/c.txt'']"
proof -
  let ?recs = "[book_record ''X'' ''Ann'' ''1990'' ''books/b.docx'',
                book_record ''T'' ''Bob'' ''2001'' ''books/a.pdf'',
                book_record ''T'' ''Cy'' ''2002'' ''books/c.txt'']"
  have s: "books_store sample_book = PList ?recs"
    by (simp add: sample_book_def)
  have f: "list_all flat_record ?recs"
    by (simp add: flat_record_def book_record_def fieldnames_def k_title_def k_author_def k_year_def
          k_file_path_def is_str_def lit_def)
  have u: "list_all unsplit_record ?recs"
    by (simp add: unsplit_record_def book_record_def lit_def)
  have o: "open_write sample_env (filename sample_book) = None"
    by (simp add: open_write_def sample_env_def sample_book_def empty_book_def lit_def)
  have m: "2 \<le> max_depth sample_env" by (simp add: sample_env_def)
  show ?thesis
    using save_load_roundtrip [OF s f u o m] s o by simp
qed

section \<open>export_as_csv\<close>

lemma row_values_closed:
  "list_all (\<lambda>k. case py_getitem book k of Inl e \<Rightarrow> False | Inr v \<Rightarrow> True) ks
   \<Longrightarrow> row_values book ks = Inr (map (field book) ks)"
  by (induction ks) (auto simp: field_def split: sum.splits)

lemma csv_row_fieldnames: "writerow (map (csv_text E) (map (field book) fieldnames)) = csv_row E book"
  by (simp add: csv_row_def fieldnames_def k_title_def k_author_def k_year_def k_file_path_def)

lemma export_rows_closed:
  "list_all has_fields books \<Longrightarrow> list_all (\<lambda>book. locale_encodable E (csv_row E book)) books
   \<Longrightarrow> export_rows E books written = (None, written @ concat (map (csv_row E) books))"
proof (induction books arbitrary: written)
  case Nil
  then show ?case by simp
next
  case (Cons book books)
  then have r: "row_values book fieldnames = Inr (map (field book) fieldnames)"
    by (simp add: has_fields_def row_values_closed)
  show ?case
    using Cons by (simp add: r csv_row_fieldnames del: map_map)
qed

lemma header_row: "writerow fieldnames = lit ''title,author,year,file_path'' @ [13, 10]"
  by (simp add: writerow_def fieldnames_def csv_field_def csv_special_def k_title_def k_author_def
        k_year_def k_file_path_def lit_def)

text \<open>
  C7, as the claim states it, fails: the rows are written in the locale's encoding, and a row
  that it cannot take stops the export. With a \<open>books.json\<close> that holds one record, titled with
  the lone surrogate U+D800 (the text \<open>save_books\<close> writes for such a store), \<open>export_as_csv\<close>
  raises \<open>UnicodeEncodeError\<close>, and the CSV file holds the header row and no row for the
  record.
\<close>

theorem export_as_csv_rows_counterexample:
  "files surrogate_book (lit ''books.json'') = Some (Text (json_dumps (PList [surrogate_record])))
   \<and> json_load sample_env (Text (json_dumps (PList [surrogate_record]))) = Inr (PList [surrogate_record])
   \<and> fst (export_as_csv sample_env (lit ''books.csv'') surrogate_book) =
       Some (UnicodeEncodeError ([55296] @ lit '',Ann,1990,books/b.docx'' @ [13, 10]))
   \<and> files (snd (export_as_csv sample_env (lit ''books.csv'') surrogate_book)) (lit ''books.csv'') =
       Some (Text (lit ''title,author,year,file_path'' @ [13, 10]))"
proof -
  have "list_all text_record [surrogate_record]"
    by (simp add: text_record_def text_value_def surrogate_record_def lit_def)
  moreover have "2 \<le> max_depth sample_env" by (simp add: sample_env_def)
  ultimately have "json_loads sample_env (json_dumps (PList [surrogate_record])) = Inr (PList [surrogate_record])"
    by (rule json_roundtrip_records)
  then have j: "json_load sample_env (Text (json_dumps (PList [surrogate_record]))) = Inr (PList [surrogate_record])"
    by (simp add: json_load_def read_text_def)
  have f: "files surrogate_book (lit ''books.json'') = Some (Text (json_dumps (PList [surrogate_record])))"
    "filename surrogate_book = lit ''books.json''"
    by (simp_all add: surrogate_book_def empty_book_def)
  have o: "open_write sample_env (lit ''books.csv'') = None"
    by (simp add: open_write_def sample_env_def lit_def)
  have v: "row_values surrogate_record fieldnames =
             Inr [PStr [55296], PStr (lit ''Ann''), PStr (lit ''1990''), PStr (lit ''books/b.docx'')]"
    by (simp add: surrogate_record_def fieldnames_def k_title_def k_author_def k_year_def
          k_file_path_def lit_def)
  have w: "writerow [[55296], lit ''Ann'', lit ''1990'', lit ''books/b.docx'']
           = [55296] @ lit '',Ann,1990,books/b.docx'' @ [13, 10]"
    by (simp add: writerow_def csv_field_def csv_special_def lit_def)
  have n: "\<not> locale_encodable sample_env ([55296] @ lit '',Ann,1990,books/b.docx'' @ [13, 10])"
    by (simp add: locale_encodable_def sample_env_def)
  have x: "export_rows sample_env [surrogate_record] (writerow fieldnames) =
             (Some (UnicodeEncodeError ([55296] @ lit '',Ann,1990,books/b.docx'' @ [13, 10])),
              writerow fieldnames)"
    using n by (simp add: v csv_text_def w del: append.simps)
  have "export_as_csv sample_env (lit ''books.csv'') surrogate_book =
          (Some (UnicodeEncodeError ([55296] @ lit '',Ann,1990,books/b.docx'' @ [13, 10])),
           write_file (lit ''books.csv'') (Text (writerow fieldnames)) surrogate_book)"
    by (simp add: export_as_csv_def f j o x Let_def del: export_rows.simps)
  then show ?thesis
    using f(1) j by (simp add: write_file_def header_row)
qed

text \<open>
  C7, amended. \<open>export_as_csv\<close> reads the file named by \<open>filename\<close> (\<open>books.json\<close>), not the store
  in memory (second conjunct). When \<open>json.load\<close> returns from it an array whose records each
  have the four fields, the CSV file opens for writing, and the locale's encoding takes the
  row of every record, then \<open>export_as_csv\<close> returns without an exception and the CSV file
  holds the header row \<open>title,author,year,file_path\<close> followed by one row per record of the
  array, in the array's order, each row made of the record's title, author, year and file
  path.
\<close>

theorem export_as_csv_rows:
  assumes "files self (filename self) = Some json_file"
    and "json_load E json_file = Inr (PList books)"
    and "list_all has_fields books"
    and "open_write E csv_filename = None"
    and "list_all (\<lambda>book. locale_encodable E (csv_row E book)) books"
  shows "export_as_csv E csv_filename self =
           (None, print (lit ''Books exported to CSV file successfully!'')
                    (write_file csv_filename
                       (Text (lit ''title,author,year,file_path'' @ [13, 10]
                              @ concat (map (\<lambda>book. writerow [csv_text E (field book (lit ''title'')),
                                                               csv_text E (field book (lit ''author'')),
                                                               csv_text E (field book (lit ''year'')),
                                                               csv_text E (field book (lit ''file_path''))])
                                          books)))
                       self))
       \<and> export_as_csv E csv_filename (self\<lparr>books_store := other\<rparr>) =
           (None, snd (export_as_csv E csv_filename self)\<lparr>books_store := other\<rparr>)"
proof -
  have m: "csv_row E =
           (\<lambda>book. writerow [csv_text E (field book (lit ''title'')),
                             csv_text E (field book (lit ''author'')),
                             csv_text E (field book (lit ''year'')),
                             csv_text E (field book (lit ''file_path''))])"
    by (simp add: fun_eq_iff csv_row_def)
  have x: "export_rows E books (lit ''title,author,year,file_path'' @ [13, 10]) =
             (None, (lit ''title,author,year,file_path'' @ [13, 10]) @ concat (map (csv_row E) books))"
    using assms(3,5) by (rule export_rows_closed)
  show ?thesis
    using assms(1,2,4)
    by (simp add: export_as_csv_def header_row x m [symmetric] print_def write_file_def Let_def)
qed

theorem export_as_csv_rows_witness:
  "files saved_book (filename saved_book) =
     Some (Text (json_dumps (PList [book_record ''a,b'' ''Ann'' ''1990'' ''books/b.docx''])))
   \<and> json_load sample_env (Text (json_dumps (PList [book_record ''a,b'' ''Ann'' ''1990'' ''books/b.docx''])))
       = Inr (PList [book_record ''a,b'' ''Ann'' ''1990'' ''books/b.docx''])
   \<and> open_write sample_env (lit ''books.csv'') = None
   \<and> export_as_csv sample_env (lit ''books.csv'') saved_book =
       (None, print (lit ''Books exported to CSV file successfully!'')
                (write_file (lit ''books.csv'')
                   (Text (lit ''title,author,year,file_path'' @ [13, 10]
                          @ [34] @ lit ''a,b'' @ [34] @ lit '',Ann,1990,books/b.docx'' @ [13, 10]))
                   saved_book))"
proof -
  let ?r = "book_record ''a,b'' ''Ann'' ''1990'' ''books/b.docx''"
  have f: "files saved_book (filename saved_book) = Some (Text (json_dumps (PList [?r])))"
    by (simp add: saved_book_def empty_book_def)
  have "list_all text_record [?r]"
    by (simp add: text_record_def text_value_def book_record_def lit_def)
  moreover have "2 \<le> max_depth sample_env" by (simp add: sample_env_def)
  ultimately have "json_loads sample_env (json_dumps (PList [?r])) = Inr (PList [?r])"
    by (rule json_roundtrip_records)
  then have j: "json_load sample_env (Text (json_dumps (PList [?r]))) = Inr (PList [?r])"
    by (simp add: json_load_def read_text_def)
  have h: "list_all has_fields [?r]"
    by (simp add: has_fields_def fieldnames_def book_record_def k_title_def k_author_def k_year_def
          k_file_path_def lit_def)
  have o: "open_write sample_env (lit ''books.csv'') = None"
    by (simp add: open_write_def sample_env_def lit_def)
  have v: "field ?r (lit ''title'') = PStr (lit ''a,b'')" "field ?r (lit ''author'') = PStr (lit ''Ann'')"
    "field ?r (lit ''year'') = PStr (lit ''1990'')" "field ?r (lit ''file_path'') = PStr (lit ''books/b.docx'')"
    by (simp_all add: field_def book_record_def lit_def)
  have w: "writerow [lit ''a,b'', lit ''Ann'', lit ''1990'', lit ''books/b.docx'']
           = [34] @ lit ''a,b'' @ [34] @ lit '',Ann,1990,books/b.docx'' @ [13, 10]"
    by (simp add: writerow_def csv_field_def csv_special_def lit_def)
  have c: "csv_row sample_env ?r = [34] @ lit ''a,b'' @ [34] @ lit '',Ann,1990,books/b.docx'' @ [13, 10]"
    by (simp only: csv_row_def v csv_text_def pyval.case w)
  have l: "list_all (\<lambda>book. locale_encodable sample_env (csv_row sample_env book)) [?r]"
    by (simp add: c locale_encodable_def lit_def)
  have "export_as_csv sample_env (lit ''books.csv'') saved_book =
       (None, print (lit ''Books exported to CSV file successfully!'')
                (write_file (lit ''books.csv'')
                   (Text (lit ''title,author,year,file_path'' @ [13, 10]
                          @ [34] @ lit ''a,b'' @ [34] @ lit '',Ann,1990,books/b.docx'' @ [13, 10]))
                   saved_book))"
    using conjunct1 [OF export_as_csv_rows [OF f j h o l, of PNone]] v w
    by (simp add: csv_text_def)
  with f j o show ?thesis by blast
qed

section \<open>Titles are unique only if the user keeps them so\<close>

lemma add_books_store:
  "add_books E title author publication_date book_url self = (r, self')
   \<Longrightarrow> books_store self' = books_store self
       \<or> (\<exists>xs file_name. books_store self = PList xs
            \<and> books_store self' =
                PList (xs @ [PDict [(k_title, PStr title), (k_author, PStr author),
                                    (k_year, PStr publication_date), (k_file_path, PStr file_name)]]))"
  by (cases "books_store self")
     (auto simp: add_books_def print_def write_file_def Let_def split: sum.splits if_splits option.splits)

lemma add_books_unique:
  assumes "add_books E title author publication_date book_url self = (r, self')"
    and "unique_titles (books_store self)"
    and "Inr (PStr title) \<notin> set (titles (books_store self))"
  shows "unique_titles (books_store self')"
  using add_books_store [OF assms(1)] assms(2,3)
  by (auto simp: unique_titles_def titles_def)

lemma edit_loop_result:
  "edit_loop edit a b c d xs = Inr (Some xs')
   \<Longrightarrow> \<exists>pre book post book'. xs = pre @ book # post \<and> xs' = pre @ book' # post
         \<and> py_getitem book k_title = Inr (PStr edit) \<and> edit_record a b c d book = Inr book'"
proof (induction xs arbitrary: xs')
  case Nil
  then show ?case by simp
next
  case (Cons x xs)
  show ?case
  proof (cases "py_getitem x k_title = Inr (PStr edit)")
    case True
    then obtain x' where "edit_record a b c d x = Inr x'" "xs' = x' # xs"
      using Cons.prems by (auto split: sum.splits)
    then show ?thesis using True by (intro exI [of _ "[]"]) auto
  next
    case False
    then obtain ys where e: "edit_loop edit a b c d xs = Inr (Some ys)" and x: "xs' = x # ys"
      using Cons.prems by (auto split: sum.splits option.splits if_splits)
    from Cons.IH [OF e] obtain pre book post book' where
      "xs = pre @ book # post" "ys = pre @ book' # post"
      "py_getitem book k_title = Inr (PStr edit)" "edit_record a b c d book = Inr book'"
      by blast
    then show ?thesis using x by (intro exI [of _ "x # pre"]) auto
  qed
qed


lemma edit_record_title:
  assumes "edit_record a b c d book = Inr book'" and "py_getitem book k_title = Inr cur"
  shows "py_getitem book' k_title = Inr (or_current a cur)"
proof -
  from assms(2) obtain kvs where k: "book = PDict kvs" and t: "map_of kvs k_title = Some cur"
    by (cases book) (auto split: option.splits)
  from assms(1) k obtain v2 v3 v4 where
    v: "map_of kvs k_author = Some v2" "map_of kvs k_year = Some v3" "map_of kvs k_file_path = Some v4"
    by (auto simp: edit_record_def split: option.splits sum.splits)
  have "book' = PDict (edited kvs (or_current a cur) (or_current b v2) (or_current c v3) (or_current d v4))"
    using edit_record_dict [OF t v, of a b c d] assms(1) k by simp
  then show ?thesis
    using keys_distinct by (simp add: map_of_edited)
qed

lemma distinct_replace:
  assumes "distinct (map f (pre @ x # post))"
    and "f x' = f x \<or> f x' \<notin> set (map f (pre @ x # post))"
  shows "distinct (map f (pre @ x' # post))"
  using assms by (fastforce simp: image_iff)

lemma edit_book_unique:
  assumes "edit_book edit a b c d self = (r, self')"
    and "unique_titles (books_store self)"
    and "strip a = [] \<or> strip a = edit \<or> Inr (PStr (strip a)) \<notin> set (titles (books_store self))"
  shows "unique_titles (books_store self')"
proof (cases "books_store self")
  case (PList xs)
  show ?thesis
  proof (cases "edit_loop edit a b c d xs")
    case (Inl e)
    then show ?thesis using assms(1,2) PList by (auto simp: edit_book_def)
  next
    case (Inr res)
    show ?thesis
    proof (cases res)
      case None
      then show ?thesis using assms(1,2) PList Inr by (auto simp: edit_book_def)
    next
      case (Some xs')
      from edit_loop_result [of edit a b c d xs xs'] Inr Some obtain pre book post book' where
        x: "xs = pre @ book # post" and x': "xs' = pre @ book' # post"
        and t: "py_getitem book k_title = Inr (PStr edit)"
        and e: "edit_record a b c d book = Inr book'"
        by blast
      have t': "py_getitem book' k_title = Inr (or_current a (PStr edit))"
        using e t by (rule edit_record_title)
      have "distinct (map (\<lambda>book. py_getitem book k_title) (pre @ book # post))"
        using assms(2) PList x by (simp add: unique_titles_def titles_def)
      moreover have "py_getitem book' k_title = py_getitem book k_title
            \<or> py_getitem book' k_title \<notin> set (map (\<lambda>book. py_getitem book k_title) (pre @ book # post))"
        using assms(3) t t' PList x by (auto simp: or_current_def titles_def)
      ultimately have "distinct (map (\<lambda>book. py_getitem book k_title) (pre @ book' # post))"
        by (rule distinct_replace)
      moreover have "books_store self' = PList xs'"
        using assms(1) PList Inr Some by (auto simp: edit_book_def print_def)
      ultimately show ?thesis using x' by (simp add: unique_titles_def titles_def)
    qed
  qed
qed (use assms in \<open>auto simp: edit_book_def print_def split: sum.splits option.splits\<close>)

lemma distinct_delete:
  assumes "distinct (map f xs)"
  shows "distinct (map f (take i xs @ drop (Suc i) xs))"
proof -
  have "distinct (map f (take i xs) @ map f (drop i xs))"
    using assms by (simp flip: map_append)
  moreover have "set (drop (Suc i) xs) \<subseteq> set (drop i xs)"
    by (simp add: set_drop_subset_set_drop)
  moreover have "distinct (map f (drop (Suc i) xs))"
    using assms by (simp add: distinct_drop flip: drop_map)
  ultimately show ?thesis by auto
qed

lemma remove_book_unique:
  assumes "remove_book remove self = (r, self')" and "unique_titles (books_store self)"
  shows "unique_titles (books_store self')"
proof (cases "books_store self")
  case (PList xs)
  then show ?thesis
    using assms distinct_delete [of "\<lambda>book. py_getitem book k_title" xs]
    by (auto simp: remove_book_def print_def unique_titles_def titles_def
          split: sum.splits option.splits if_splits)
qed (use assms in \<open>auto simp: remove_book_def print_def split: sum.splits option.splits\<close>)

lemma read_book_store: "books_store (snd (read_book E title self)) = books_store self"
proof -
  have "books_store (snd (read_loop E title xs self)) = books_store self" for xs
    by (induction xs) (auto simp: read_try_store split: sum.splits)
  then show ?thesis by (auto simp: read_book_def split: sum.splits)
qed

lemma save_books_store: "books_store (snd (save_books E self)) = books_store self"
  by (simp add: save_books_def split: option.splits)

lemma export_as_csv_store: "books_store (snd (export_as_csv E csv self)) = books_store self"
  by (auto simp: export_as_csv_def Let_def split: option.splits sum.splits prod.splits)

lemma sample_download:
  "validators_url sample_env (lit ''http://x.org/a.pdf'')"
  "requests_get sample_env (lit ''http://x.org/a.pdf'') = Inr \<lparr>status_code = 200, content = lit ''%PDF''\<rparr>"
  "open_write sample_env (lit ''books/a.pdf'') = None"
  by (simp_all add: sample_env_def open_write_def lit_def)

lemma started_eq:
  "Book_init sample_env Map.empty [] = (None, started)" "books_store started = PList []"
  by (simp_all add: started_def Book_init_def load_books_def starting_empty_def print_def)

lemma added_T_eq:
  "add_books sample_env (lit ''T'') (lit ''Ann'') (lit ''1990'') (lit ''http://x.org/a.pdf'') started
     = (None, added_T)"
  "books_store added_T = PList [book_record ''T'' ''Ann'' ''1990'' ''books/a.pdf'']"
proof -
  have p: "path_join (books_directory started) (basename (lit ''http://x.org/a.pdf'')) = lit ''books/a.pdf''"
    by (simp add: started_def Book_init_def load_books_def starting_empty_def print_def path_join_def
          basename_def lit_def)
  show "add_books sample_env (lit ''T'') (lit ''Ann'') (lit ''1990'') (lit ''http://x.org/a.pdf'') started
     = (None, added_T)"
    by (simp add: added_T_def add_books_def sample_download started_eq Let_def print_def write_file_def p)
  show "books_store added_T = PList [book_record ''T'' ''Ann'' ''1990'' ''books/a.pdf'']"
    by (simp add: added_T_def add_books_def sample_download started_eq Let_def print_def write_file_def
          p book_record_def k_title_def k_author_def k_year_def k_file_path_def)
qed

lemma added_again_eq:
  "add_books sample_env (lit t) (lit ''Bob'') (lit ''2001'') (lit ''http://x.org/a.pdf'') added_T
     = (None, snd (add_books sample_env (lit t) (lit ''Bob'') (lit ''2001'') (lit ''http://x.org/a.pdf'') added_T))"
  "books_store (snd (add_books sample_env (lit t) (lit ''Bob'') (lit ''2001'') (lit ''http://x.org/a.pdf'') added_T))
     = PList [book_record ''T'' ''Ann'' ''1990'' ''books/a.pdf'', book_record t ''Bob'' ''2001'' ''books/a.pdf'']"
proof -
  have p: "path_join (lit ''books'') (basename (lit ''http://x.org/a.pdf'')) = lit ''books/a.pdf''"
    by (simp add: path_join_def basename_def lit_def)
  have d: "books_directory added_T = lit ''books''"
    by (simp add: added_T_def add_books_def sample_download started_eq Let_def print_def write_file_def
          started_def Book_init_def load_books_def starting_empty_def p)
  show "add_books sample_env (lit t) (lit ''Bob'') (lit ''2001'') (lit ''http://x.org/a.pdf'') added_T
     = (None, snd (add_books sample_env (lit t) (lit ''Bob'') (lit ''2001'') (lit ''http://x.org/a.pdf'') added_T))"
    by (simp add: add_books_def sample_download added_T_eq Let_def d p)
  show "books_store (snd (add_books sample_env (lit t) (lit ''Bob'') (lit ''2001'') (lit ''http://x.org/a.pdf'') added_T))
     = PList [book_record ''T'' ''Ann'' ''1990'' ''books/a.pdf'', book_record t ''Bob'' ''2001'' ''books/a.pdf'']"
    by (simp add: add_books_def sample_download added_T_eq Let_def print_def write_file_def d p
          book_record_def k_title_def k_author_def k_year_def k_file_path_def)
qed

text \<open>
  C5, as the claim states it, fails: \<open>add_books\<close> appends whatever title is entered, so adding
  the same title twice on a first run reaches a store with two records of one title.
\<close>

theorem title_uniqueness_counterexample:
  "reachable sample_env added_T_twice \<and> \<not> unique_titles (books_store added_T_twice)"
proof
  have "reachable sample_env started"
    using started_eq(1) by (rule reachable.start)
  then have "reachable sample_env added_T"
    using added_T_eq(1) by (rule reachable.add)
  then show "reachable sample_env added_T_twice"
    unfolding added_T_twice_def using added_again_eq(1) by (rule reachable.add)
  show "\<not> unique_titles (books_store added_T_twice)"
    unfolding added_T_twice_def added_again_eq(2)
    by (simp add: unique_titles_def titles_def book_record_def k_title_def)
qed

text \<open>
  C5, amended. No two records have equal titles in any store reached from a file whose
  records have pairwise different titles, as long as the title entered in \<open>add_books\<close> is not
  yet in the store and the new title entered in \<open>edit_book\<close> is blank, the old one, or not yet
  in the store.
\<close>

theorem unique_titles_when_fresh:
  assumes "reachable_fresh E self"
  shows "unique_titles (books_store self)"
  using assms
proof (induction rule: reachable_fresh.induct)
  case (start fs out self)
  then show ?case by simp
next
  case (add self title author publication_date book_url self')
  then show ?case by (auto intro: add_books_unique)
next
  case (edit self in_title edit in_author in_date in_path self')
  then show ?case by (auto intro: edit_book_unique)
next
  case (remove self remove self')
  then show ?case by (auto intro: remove_book_unique)
next
  case (save self self')
  then show ?case using save_books_store [of E self] by simp
next
  case (export self self')
  then show ?case using export_as_csv_store [of E "lit ''books.csv''" self] by simp
next
  case (read self title self')
  then show ?case using read_book_store [of E title self] by simp
qed


theorem unique_titles_when_fresh_witness:
  "reachable_fresh sample_env added_T_U \<and> unique_titles (books_store added_T_U)"
proof -
  have u: "unique_titles (books_store started)"
    by (simp add: started_eq unique_titles_def titles_def)
  have "reachable_fresh sample_env started"
    using started_eq(1) u by (rule reachable_fresh.start)
  moreover have "Inr (PStr (lit ''T'')) \<notin> set (titles (books_store started))"
    by (simp add: started_eq titles_def)
  ultimately have "reachable_fresh sample_env added_T"
    using added_T_eq(1) by (rule reachable_fresh.add)
  moreover have "Inr (PStr (lit ''U'')) \<notin> set (titles (books_store added_T))"
    by (simp add: added_T_eq titles_def book_record_def k_title_def lit_def)
  ultimately have r: "reachable_fresh sample_env added_T_U"
    unfolding added_T_U_def using added_again_eq(1) by (rule reachable_fresh.add)
  from r unique_titles_when_fresh [OF r] show ?thesis by simp
qed

end
